(* ===== verification/Prelude.thy ===== *)
theory Prelude
  imports Main "HOL-Library.Word"
begin

text \<open>
  What every component of the development shares.

  \<^item> The machine integers of the C code: \<open>c_int\<close> is the 32-bit \<open>int\<close> of the two targets
    (arm64 for the drivers, x86-64 or arm64 for the servers), read with \<open>sint\<close>. Signed overflow
    is undefined in C; the model wraps, as the generated code of both targets does, and every
    functional property states the range in which nothing wraps.
  \<^item> Transition systems as a step function \<open>state \<Rightarrow> event \<Rightarrow> state option\<close> (\<open>None\<close>: the event
    is not possible now, for example a lock that is taken), runs over event lists, the
    reachable states, and the locales through which the components prove their invariants,
    their lock disciplines and their refinements.
  \<^item> The sum over a list that one indexed update changes at one place, which the accounting
    invariants use.
\<close>

named_theorems run_simps \<open>rewrite rules that execute a run of a transition system\<close>

type_synonym c_int = "32 word"

section \<open>Machine integers\<close>

lemma sint_c_int_range: "- 2147483648 \<le> sint (x :: c_int)" "sint (x :: c_int) \<le> 2147483647"
  using sint_ge [of x] sint_lt [of x] by simp_all

lemma sint_word_of_int_c_int:
  "- 2147483648 \<le> x \<Longrightarrow> x \<le> 2147483647 \<Longrightarrow> sint (word_of_int x :: c_int) = x"
  by (simp add: sint_sbintrunc' signed_take_bit_int_eq_self)

lemma sint_add_c_int:
  "- 2147483648 \<le> sint x + sint y \<Longrightarrow> sint x + sint y \<le> 2147483647 \<Longrightarrow>
    sint (x + y :: c_int) = sint x + sint y"
  using sint_word_of_int_c_int [of "sint x + sint y"] by (simp add: of_int_add)

lemma sint_sub_c_int:
  "- 2147483648 \<le> sint x - sint y \<Longrightarrow> sint x - sint y \<le> 2147483647 \<Longrightarrow>
    sint (x - y :: c_int) = sint x - sint y"
  using sint_word_of_int_c_int [of "sint x - sint y"] by (simp add: of_int_diff)

lemma c_int_eqI: "sint (x :: c_int) = sint y \<Longrightarrow> x = y"
  by (simp add: word_eq_iff_signed [where 'a = int])

section \<open>Transition systems\<close>

fun run_events :: "('s \<Rightarrow> 'e \<Rightarrow> 's option) \<Rightarrow> 's \<Rightarrow> 'e list \<Rightarrow> 's option" where
  "run_events st s [] = Some s"
| "run_events st s (e # es) = (case st s e of None \<Rightarrow> None | Some t \<Rightarrow> run_events st t es)"

lemma run_events_append:
  "run_events st s (es @ fs) =
    (case run_events st s es of None \<Rightarrow> None | Some t \<Rightarrow> run_events st t fs)"
  by (induction es arbitrary: s) (auto split: option.splits)

inductive reachable :: "'s \<Rightarrow> ('s \<Rightarrow> 'e \<Rightarrow> 's option) \<Rightarrow> 's \<Rightarrow> bool" for s0 st where
  start: "reachable s0 st s0"
| step: "reachable s0 st s \<Longrightarrow> st s e = Some t \<Longrightarrow> reachable s0 st t"

lemma reachable_run: "reachable s0 st s \<Longrightarrow> run_events st s es = Some t \<Longrightarrow> reachable s0 st t"
  by (induction es arbitrary: s) (auto split: option.splits intro: reachable.step)

lemma run_reachable: "run_events st s0 es = Some t \<Longrightarrow> reachable s0 st t"
  by (rule reachable_run [OF reachable.start])

lemma reachable_iff_run: "reachable s0 st t \<longleftrightarrow> (\<exists>es. run_events st s0 es = Some t)"
proof
  assume "reachable s0 st t"
  then show "\<exists>es. run_events st s0 es = Some t"
  proof (induction rule: reachable.induct)
    case start
    show ?case by (rule exI [of _ "[]"]) simp
  next
    case (step s e t)
    then obtain es where "run_events st s0 es = Some s" by blast
    with step.hyps have "run_events st s0 (es @ [e]) = Some t" by (simp add: run_events_append)
    then show ?case by blast
  qed
qed (auto intro: run_reachable)

text \<open>A run that is evaluated gives a reachable state with the properties found there.\<close>

lemma evaluated_run:
  "(case run_events st s0 es of None \<Rightarrow> False | Some s \<Rightarrow> P s) \<Longrightarrow>
    \<exists>s. reachable s0 st s \<and> P s"
  by (auto split: option.splits dest: run_reachable)

text \<open>
  An inductive invariant: it holds at the start and every possible step keeps it. The client
  lemmas give it for the reachable states and along every run.
\<close>

locale inductive_invariant =
  fixes start_state :: 's
    and step :: "'s \<Rightarrow> 'e \<Rightarrow> 's option"
    and inv :: "'s \<Rightarrow> bool"
  assumes inv_start: "inv start_state"
    and inv_step: "inv s \<Longrightarrow> step s e = Some t \<Longrightarrow> inv t"
begin

lemma inv_reachable: "reachable start_state step s \<Longrightarrow> inv s"
  by (induction rule: reachable.induct) (auto intro: inv_start inv_step)

lemma inv_run: "inv s \<Longrightarrow> run_events step s es = Some t \<Longrightarrow> inv t"
  by (induction es arbitrary: s) (auto split: option.splits intro: inv_step)

end

text \<open>
  A lock discipline on top of an invariant: who is inside the section the lock protects is
  recorded as the holder of the lock. Mutual exclusion follows.
\<close>

locale lock_discipline = inductive_invariant start_state step inv
  for start_state :: 's and step :: "'s \<Rightarrow> 'e \<Rightarrow> 's option" and inv :: "'s \<Rightarrow> bool" +
  fixes holder :: "'s \<Rightarrow> 't option"
    and inside :: "'s \<Rightarrow> 't \<Rightarrow> bool"
  assumes inside_holds: "inv s \<Longrightarrow> inside s t \<Longrightarrow> holder s = Some t"
begin

lemma exclusive: "reachable start_state step s \<Longrightarrow> inside s t \<Longrightarrow> inside s u \<Longrightarrow> t = u"
  using inside_holds [OF inv_reachable, of s t] inside_holds [OF inv_reachable, of s u] by simp

lemma free_nobody: "reachable start_state step s \<Longrightarrow> holder s = None \<Longrightarrow> \<not> inside s t"
  using inside_holds [OF inv_reachable, of s t] by auto

end

text \<open>
  A refinement: under the invariant, every concrete step is a step of the abstract system or
  leaves its state alone. Reachable concrete states then lie over reachable abstract ones.
\<close>

locale refinement = inductive_invariant start_state step inv
  for start_state :: 's and step :: "'s \<Rightarrow> 'e \<Rightarrow> 's option" and inv :: "'s \<Rightarrow> bool" +
  fixes astart :: 'a
    and astep :: "'a \<Rightarrow> 'f \<Rightarrow> 'a option"
    and abs :: "'s \<Rightarrow> 'a"
  assumes abs_start: "abs start_state = astart"
    and abs_step: "inv s \<Longrightarrow> step s e = Some t \<Longrightarrow>
      abs t = abs s \<or> (\<exists>f. astep (abs s) f = Some (abs t))"
begin

lemma abs_reachable: "reachable start_state step s \<Longrightarrow> reachable astart astep (abs s)"
proof (induction rule: reachable.induct)
  case start
  show ?case using reachable.start [of astart astep] by (simp add: abs_start)
next
  case (step s e t)
  then show ?case
    using abs_step [OF inv_reachable [OF step.hyps(1)] step.hyps(2)]
    by (auto intro: reachable.step)
qed

end

section \<open>Lists updated at one index\<close>

lemma sum_list_update_int:
  fixes f :: "'a \<Rightarrow> int"
  shows "i < length xs \<Longrightarrow>
    sum_list (map f (xs[i := x])) = sum_list (map f xs) - f (xs ! i) + f x"
proof (induction xs arbitrary: i)
  case (Cons a xs)
  then show ?case by (cases i) auto
qed simp

lemma all_nth_update:
  "i < length xs \<Longrightarrow> (\<And>j. j < length xs \<Longrightarrow> j \<noteq> i \<Longrightarrow> P j (xs ! j)) \<Longrightarrow> P i x \<Longrightarrow>
    j < length xs \<Longrightarrow> P j (xs[i := x] ! j)"
  by (cases "i = j") auto

lemma nth_append_last: "(xs @ [x]) ! length xs = x"
  by simp

end
