(* ===== verification/CLib.thy ===== *)
theory CLib
  imports Prelude
begin

text \<open>
  The part of the C library the programs call, on memory as lists of characters.

  \<^item> A \<open>char\<close> array of size \<open>n\<close> is a list of length \<open>n\<close>; the C string in it is the part before
    the first NUL (\<open>cstr\<close>). Writes that a correct call cannot make (past the end of the
    destination) give \<open>None\<close>.
  \<^item> \<open>printf\<close> conversions \<open>%d\<close> and \<open>%s\<close> as text; \<open>snprintf\<close> with its truncation.
  \<^item> \<open>sscanf\<close> as a list of directives that is run over the input and stops at the first one
    that does not match; \<open>%d\<close> as the GNU library reads it (\<open>strtol\<close>, then the low 32 bits).
  \<^item> Round trips: what \<open>%d\<close> and \<open>%s\<close> print, the directives read back.
\<close>

section \<open>Character arrays and C strings\<close>

definition NUL :: char where "NUL = CHR 0x00"

definition LF :: char where "LF = CHR 0x0A"

lemma LF_not_NUL [simp]: "LF \<noteq> NUL" "NUL \<noteq> LF"
  by (simp_all add: LF_def NUL_def)

definition zeros :: "nat \<Rightarrow> char list" where
  "zeros n = replicate n NUL"

definition cstr :: "char list \<Rightarrow> char list" where
  "cstr b = takeWhile (\<lambda>c. c \<noteq> NUL) b"

definition terminated :: "char list \<Rightarrow> bool" where
  "terminated b \<longleftrightarrow> NUL \<in> set b"

text \<open>Bytes stored from the start of an array, over what was there.\<close>

definition overlay :: "char list \<Rightarrow> char list \<Rightarrow> char list" where
  "overlay bs b = bs @ drop (length bs) b"

definition strcmp_eq :: "char list \<Rightarrow> char list \<Rightarrow> bool" where
  "strcmp_eq b s \<longleftrightarrow> cstr b = cstr s"

definition strncmp_eq :: "char list \<Rightarrow> char list \<Rightarrow> nat \<Rightarrow> bool" where
  "strncmp_eq b s n \<longleftrightarrow> take n (cstr b) = take n (cstr s)"

definition strcpy :: "char list \<Rightarrow> char list \<Rightarrow> char list option" where
  "strcpy dst src =
    (if length (cstr src) < length dst then Some (overlay (cstr src @ [NUL]) dst) else None)"

text \<open>
  \<open>snprintf (dst + off, size, "%s", s)\<close>: at most \<open>size - 1\<close> characters and a NUL, nothing when
  \<open>size\<close> is 0.
\<close>

definition snprintf_at :: "char list \<Rightarrow> nat \<Rightarrow> nat \<Rightarrow> char list \<Rightarrow> char list" where
  "snprintf_at dst off sz s =
    (if sz = 0 then dst
     else take off dst @ overlay (take (sz - 1) s @ [NUL]) (drop off dst))"

definition strcat :: "char list \<Rightarrow> char list \<Rightarrow> char list option" where
  "strcat dst src =
    (if length (cstr dst) + length (cstr src) < length dst
     then Some (take (length (cstr dst)) dst @
                overlay (cstr src @ [NUL]) (drop (length (cstr dst)) dst))
     else None)"

lemma length_zeros [simp]: "length (zeros n) = n"
  by (simp add: zeros_def)

lemma drop_zeros [simp]: "drop k (zeros n) = zeros (n - k)"
  by (simp add: zeros_def)

lemma cstr_zeros [simp]: "cstr (zeros n) = []"
  by (cases n) (simp_all add: zeros_def cstr_def)

lemma cstr_Nil [simp]: "cstr [] = []"
  by (simp add: cstr_def)

lemma cstr_Cons [simp]: "cstr (c # b) = (if c = NUL then [] else c # cstr b)"
  by (simp add: cstr_def)

lemma cstr_append: "NUL \<notin> set s \<Longrightarrow> cstr (s @ b) = s @ cstr b"
  by (induction s) auto

lemma cstr_no_NUL [simp]: "NUL \<notin> set (cstr b)"
  by (auto simp: cstr_def dest: set_takeWhileD)

lemma cstr_id: "NUL \<notin> set s \<Longrightarrow> cstr s = s"
  using cstr_append [of s "[]"] by simp

lemma cstr_cstr [simp]: "cstr (cstr b) = cstr b"
  by (simp add: cstr_id)

lemma length_cstr_le: "length (cstr b) \<le> length b"
  by (simp add: cstr_def length_takeWhile_le)

lemma length_cstr_less: "terminated b \<Longrightarrow> length (cstr b) < length b"
  by (induction b) (auto simp: terminated_def split: if_splits)

lemma length_overlay: "length bs \<le> length b \<Longrightarrow> length (overlay bs b) = length b"
  by (simp add: overlay_def)

lemma overlay_Nil [simp]: "overlay [] b = b"
  by (simp add: overlay_def)

lemma cstr_overlay:
  "NUL \<notin> set s \<Longrightarrow> cstr (overlay (s @ [NUL]) b) = s"
  by (simp add: overlay_def cstr_append)

lemma take_cstr: "k \<le> length (cstr b) \<Longrightarrow> take k b = take k (cstr b)"
proof (induction b arbitrary: k)
  case (Cons c b)
  then show ?case by (cases k) (auto split: if_splits)
qed simp

lemma strcpy_Some:
  assumes "strcpy dst src = Some b"
  shows "cstr b = cstr src" and "length b = length dst" and "terminated b"
  using assms by (auto simp: strcpy_def cstr_overlay cstr_append length_overlay terminated_def overlay_def
      split: if_splits)

lemma strcpy_fits: "length (cstr src) < length dst \<Longrightarrow> \<exists>b. strcpy dst src = Some b"
  by (simp add: strcpy_def)

lemma snprintf_append:
  assumes "terminated dst" and "NUL \<notin> set s"
    and "length (cstr dst) + length s < length dst"
    and "b = snprintf_at dst (length (cstr dst)) (length dst - length (cstr dst)) s"
  shows "cstr b = cstr dst @ s" and "length b = length dst" and "terminated b"
proof -
  from assms(3,4) have b: "b = cstr dst @ overlay (s @ [NUL]) (drop (length (cstr dst)) dst)"
    by (auto simp: snprintf_at_def take_cstr)
  show "cstr b = cstr dst @ s" by (simp add: b cstr_append cstr_overlay assms(2))
  show "length b = length dst" using assms(3) by (simp add: b length_overlay)
  show "terminated b" by (simp add: b terminated_def overlay_def)
qed

lemma strcat_append:
  assumes "length (cstr dst) + length (cstr s) < length dst" and "strcat dst s = Some b"
  shows "cstr b = cstr dst @ cstr s" and "length b = length dst" and "terminated b"
  using assms by (auto simp: strcat_def take_cstr cstr_append cstr_overlay length_overlay
      terminated_def overlay_def)

section \<open>Decimal conversion\<close>

definition digit_char :: "nat \<Rightarrow> char" where
  "digit_char d = char_of (48 + d)"

definition is_digit :: "char \<Rightarrow> bool" where
  "is_digit c \<longleftrightarrow> 48 \<le> (of_char c :: nat) \<and> of_char c \<le> (57 :: nat)"

definition digit_val :: "char \<Rightarrow> nat" where
  "digit_val c = of_char c - 48"

definition is_space :: "char \<Rightarrow> bool" where
  "is_space c \<longleftrightarrow> of_char c = (32 :: nat) \<or> (9 \<le> (of_char c :: nat) \<and> of_char c \<le> (13 :: nat))"

fun show_nat :: "nat \<Rightarrow> char list" where
  "show_nat n = (if n < 10 then [digit_char n] else show_nat (n div 10) @ [digit_char (n mod 10)])"

declare show_nat.simps [simp del]

text \<open>\<open>%d\<close> of a mathematical integer.\<close>

definition show_int :: "int \<Rightarrow> char list" where
  "show_int i = (if i < 0 then CHR ''-'' # show_nat (nat (- i)) else show_nat (nat i))"

definition nat_of_digits :: "char list \<Rightarrow> nat" where
  "nat_of_digits ds = foldl (\<lambda>v c. 10 * v + digit_val c) 0 ds"

lemma of_digit_char: "d < 10 \<Longrightarrow> of_char (digit_char d) = 48 + d"
  by (simp add: digit_char_def of_char_of)

lemma is_digit_digit_char [simp]: "d < 10 \<Longrightarrow> is_digit (digit_char d)"
  by (simp add: is_digit_def of_digit_char)

lemma digit_val_digit_char [simp]: "d < 10 \<Longrightarrow> digit_val (digit_char d) = d"
  by (simp add: digit_val_def of_digit_char)

lemma digit_not_space: "is_digit c \<Longrightarrow> \<not> is_space c"
  by (auto simp: is_digit_def is_space_def)

lemma digit_not_NUL: "is_digit c \<Longrightarrow> c \<noteq> NUL"
  by (auto simp: is_digit_def NUL_def)

lemma is_digit_minus [simp]: "\<not> is_digit (CHR ''-'')" "\<not> is_digit (CHR ''+'')"
  by (simp_all add: is_digit_def)

lemma show_nat_digits: "c \<in> set (show_nat n) \<Longrightarrow> is_digit c"
proof (induction n rule: show_nat.induct)
  case (1 n)
  then show ?case by (subst (asm) (2) show_nat.simps) (auto split: if_splits)
qed

lemma show_nat_nonempty: "show_nat n \<noteq> []"
  by (subst show_nat.simps) simp

lemma nat_of_digits_show_nat: "nat_of_digits (show_nat n) = n"
proof (induction n rule: show_nat.induct)
  case (1 n)
  then show ?case
    by (cases "n < 10") (simp_all add: show_nat.simps [of n] nat_of_digits_def)
qed

lemma length_show_nat: "n < 10 ^ k \<Longrightarrow> 0 < k \<Longrightarrow> length (show_nat n) \<le> k"
proof (induction n arbitrary: k rule: show_nat.induct)
  case (1 n)
  show ?case
  proof (cases "n < 10")
    case True
    with "1.prems" show ?thesis by (simp add: show_nat.simps [of n])
  next
    case False
    with "1.prems" obtain k' where k: "k = Suc k'" "0 < k'"
      by (cases k; cases "k - 1") auto
    with "1.prems" False have "length (show_nat (n div 10)) \<le> k'"
      by (intro "1.IH") (auto simp: less_mult_imp_div_less)
    with False k show ?thesis by (simp add: show_nat.simps [of n])
  qed
qed

lemma show_int_no_NUL: "NUL \<notin> set (show_int i)"
  using digit_not_NUL show_nat_digits by (auto simp: show_int_def NUL_def)

lemma length_show_int_c_int: "length (show_int (sint (x :: c_int))) \<le> 11"
proof -
  have "nat \<bar>sint x\<bar> < 10 ^ 10" using sint_c_int_range [of x] by auto
  then have "length (show_nat (nat \<bar>sint x\<bar>)) \<le> 10" by (rule length_show_nat) simp
  then show ?thesis by (auto simp: show_int_def)
qed

section \<open>Reading: strtol, atoi, sscanf\<close>

text \<open>The value of \<open>strtol\<close> fits a 64-bit \<open>long\<close>: out of range it is the nearest bound.\<close>

definition clamp_long :: "int \<Rightarrow> int" where
  "clamp_long v = max (- (2 ^ 63)) (min (2 ^ 63 - 1) v)"

text \<open>
  \<open>%d\<close> on the rest of the input: skip white space, an optional sign, at least one digit; the
  value is the \<open>long\<close> of \<open>strtol\<close> cut to 32 bits. \<open>None\<close>: the conversion fails.
\<close>

definition unsigned_part :: "char list \<Rightarrow> (int \<times> char list) option" where
  "unsigned_part s =
    (let ds = takeWhile is_digit s
     in if ds = [] then None else Some (int (nat_of_digits ds), dropWhile is_digit s))"

definition signed_part :: "char list \<Rightarrow> (int \<times> char list) option" where
  "signed_part s =
    (case s of
      [] \<Rightarrow> None
    | c # r \<Rightarrow>
        if c = CHR ''-'' then map_option (\<lambda>(v, t). (- v, t)) (unsigned_part r)
        else if c = CHR ''+'' then unsigned_part r
        else unsigned_part s)"

definition scan_d :: "char list \<Rightarrow> (c_int \<times> char list) option" where
  "scan_d s = map_option (\<lambda>(v, t). (word_of_int (clamp_long v), t))
    (signed_part (dropWhile is_space s))"

text \<open>\<open>%s\<close>: skip white space, then the longest non-empty run of other characters.\<close>

definition scan_s :: "char list \<Rightarrow> (char list \<times> char list) option" where
  "scan_s s =
    (let t = dropWhile is_space s; w = takeWhile (\<lambda>c. \<not> is_space c) t
     in if w = [] then None else Some (w, dropWhile (\<lambda>c. \<not> is_space c) t))"

text \<open>\<open>atoi\<close>: \<open>strtol\<close> cut to 32 bits, 0 when there is no number.\<close>

definition atoi :: "char list \<Rightarrow> c_int" where
  "atoi s = (case scan_d s of None \<Rightarrow> 0 | Some (v, _) \<Rightarrow> v)"

datatype directive = Literal char | Space | Percent_s | Percent_d

datatype conversion = ConvS "char list" | ConvD c_int

text \<open>The conversions made before the first directive that does not match, in order.\<close>

fun sscanf :: "directive list \<Rightarrow> char list \<Rightarrow> conversion list" where
  "sscanf [] s = []"
| "sscanf (Literal c # ds) s = (case s of [] \<Rightarrow> [] | x # t \<Rightarrow> if x = c then sscanf ds t else [])"
| "sscanf (Space # ds) s = sscanf ds (dropWhile is_space s)"
| "sscanf (Percent_s # ds) s =
    (case scan_s s of None \<Rightarrow> [] | Some (w, t) \<Rightarrow> ConvS w # sscanf ds t)"
| "sscanf (Percent_d # ds) s =
    (case scan_d s of None \<Rightarrow> [] | Some (v, t) \<Rightarrow> ConvD v # sscanf ds t)"

lemma takeWhile_all_append: "\<forall>x \<in> set xs. P x \<Longrightarrow> takeWhile P (xs @ ys) = xs @ takeWhile P ys"
  by (induction xs) auto

lemma dropWhile_all_append: "\<forall>x \<in> set xs. P x \<Longrightarrow> dropWhile P (xs @ ys) = dropWhile P ys"
  by (induction xs) auto

definition stops_number :: "char list \<Rightarrow> bool" where
  "stops_number t \<longleftrightarrow> (case t of [] \<Rightarrow> True | c # _ \<Rightarrow> \<not> is_digit c)"

definition stops_word :: "char list \<Rightarrow> bool" where
  "stops_word t \<longleftrightarrow> (case t of [] \<Rightarrow> True | c # _ \<Rightarrow> is_space c)"

lemma unsigned_part_show_nat:
  assumes "stops_number t" shows "unsigned_part (show_nat n @ t) = Some (int n, t)"
proof -
  have "takeWhile is_digit t = []" "dropWhile is_digit t = t"
    using assms by (simp_all add: stops_number_def split: list.splits)
  then show ?thesis
    by (simp add: unsigned_part_def takeWhile_all_append dropWhile_all_append show_nat_digits
        show_nat_nonempty nat_of_digits_show_nat)
qed

lemma signed_part_show_int:
  assumes "stops_number t" shows "signed_part (show_int i @ t) = Some (i, t)"
proof (cases "i < 0")
  case True
  then show ?thesis using assms
    by (simp add: signed_part_def show_int_def unsigned_part_show_nat)
next
  case False
  obtain c r where cr: "show_nat (nat i) = c # r"
    using show_nat_nonempty by (cases "show_nat (nat i)") auto
  then have "is_digit c" using show_nat_digits [of c "nat i"] by simp
  then have "c \<noteq> CHR ''-''" "c \<noteq> CHR ''+''" by auto
  with False cr assms unsigned_part_show_nat [of t "nat i"] show ?thesis
    by (simp add: signed_part_def show_int_def)
qed

lemma show_int_head: "\<exists>c r. show_int i = c # r \<and> \<not> is_space c"
proof (cases "i < 0")
  case False
  obtain c r where "show_nat (nat i) = c # r"
    using show_nat_nonempty by (cases "show_nat (nat i)") auto
  with False show_nat_digits [of c "nat i"] show ?thesis by (auto simp: show_int_def digit_not_space)
qed (auto simp: show_int_def is_space_def)

lemma scan_d_show_int:
  assumes "stops_number t" and "\<forall>c \<in> set ws. is_space c"
  shows "scan_d (ws @ show_int (sint (x :: c_int)) @ t) = Some (x, t)"
proof -
  obtain c r where "show_int (sint x) = c # r" "\<not> is_space c" using show_int_head by blast
  then have "dropWhile is_space (ws @ show_int (sint x) @ t) = show_int (sint x) @ t"
    using assms(2) by (simp add: dropWhile_all_append)
  moreover have "clamp_long (sint x) = sint x"
    using sint_c_int_range [of x] by (simp add: clamp_long_def)
  ultimately show ?thesis by (simp add: scan_d_def signed_part_show_int assms(1))
qed

lemma scan_s_word:
  assumes "w \<noteq> []" and "\<forall>c \<in> set w. \<not> is_space c" and "stops_word t" and "\<forall>c \<in> set ws. is_space c"
  shows "scan_s (ws @ w @ t) = Some (w, t)"
proof -
  have "dropWhile is_space (ws @ w @ t) = w @ t"
    using assms by (cases w) (auto simp: dropWhile_all_append)
  moreover have "takeWhile (\<lambda>c. \<not> is_space c) t = []" "dropWhile (\<lambda>c. \<not> is_space c) t = t"
    using assms(3) by (simp_all add: stops_word_def split: list.splits)
  ultimately show ?thesis using assms(1,2)
    by (simp add: scan_s_def takeWhile_all_append dropWhile_all_append)
qed

lemma scan_s_bounds:
  "scan_s s = Some (w, t) \<Longrightarrow> length w + length t \<le> length s \<and> set w \<subseteq> set s \<and> w \<noteq> []"
proof -
  assume "scan_s s = Some (w, t)"
  then have w: "w = takeWhile (\<lambda>c. \<not> is_space c) (dropWhile is_space s)"
    and t: "t = dropWhile (\<lambda>c. \<not> is_space c) (dropWhile is_space s)" and "w \<noteq> []"
    by (auto simp: scan_s_def Let_def split: if_splits)
  then have "w @ t = dropWhile is_space s" by simp
  then have "length w + length t = length (dropWhile is_space s)" by (metis length_append)
  also have "\<dots> \<le> length s" by (rule length_dropWhile_le)
  finally show ?thesis using w \<open>w \<noteq> []\<close> by (auto dest: set_takeWhileD set_dropWhileD)
qed

lemma unsigned_part_rest: "unsigned_part s = Some (v, t) \<Longrightarrow> length t \<le> length s"
  by (auto simp: unsigned_part_def Let_def length_dropWhile_le split: if_splits)

lemma scan_d_rest: "scan_d s = Some (v, t) \<Longrightarrow> length t \<le> length s"
proof -
  assume "scan_d s = Some (v, t)"
  then obtain i where "signed_part (dropWhile is_space s) = Some (i, t)" by (auto simp: scan_d_def)
  then have "length t \<le> length (dropWhile is_space s)"
    by (auto simp: signed_part_def le_SucI dest!: unsigned_part_rest split: list.splits if_splits)
  with length_dropWhile_le [of is_space s] show ?thesis by simp
qed

text \<open>A word stored by \<open>%s\<close> is no longer than the input, and has no NUL if the input has none.\<close>

lemma sscanf_word_bounds:
  "ConvS w \<in> set (sscanf ds s) \<Longrightarrow> length w \<le> length s"
proof (induction ds s rule: sscanf.induct)
  case (3 ds s)
  then show ?case using length_dropWhile_le [of is_space s] by (simp add: order_trans)
next
  case (4 ds s)
  from "4.prems" obtain v t where t: "scan_s s = Some (v, t)" "w = v \<or> ConvS w \<in> set (sscanf ds t)"
    by (cases "scan_s s") auto
  with "4.IH" [OF t(1) refl] scan_s_bounds [OF t(1)] show ?case by auto
next
  case (5 ds s)
  from "5.prems" obtain v t where t: "scan_d s = Some (v, t)" "ConvS w \<in> set (sscanf ds t)"
    by (cases "scan_d s") auto
  with "5.IH" [OF t(1) refl] scan_d_rest [OF t(1)] show ?case by auto
qed (auto split: list.splits if_splits)

text \<open>Directives over printed text.\<close>

lemma space_simps [simp]:
  "is_space (CHR '' '')" "is_space (CHR 0x0A)" "\<not> is_space (CHR ''o'')"
  by (simp_all add: is_space_def)

lemma cstr_received:
  "NUL \<notin> set bytes \<Longrightarrow> cstr (overlay bytes (zeros n)) = bytes"
  by (simp add: overlay_def cstr_append)

lemma sscanf_literals: "sscanf (map Literal l @ ds) (l @ s) = sscanf ds s"
  by (induction l) auto

lemma sscanf_space_word:
  assumes "w \<noteq> []" and "\<forall>c \<in> set w. \<not> is_space c" and "\<forall>c \<in> set ws. is_space c" and "stops_word t"
  shows "sscanf (Space # Percent_s # ds) (ws @ w @ t) = ConvS w # sscanf ds t"
proof -
  have "dropWhile is_space (ws @ w @ t) = w @ t"
    using assms by (cases w) (auto simp: dropWhile_all_append)
  then show ?thesis using scan_s_word [OF assms(1,2,4), of "[]"] by simp
qed

lemma sscanf_space_number:
  assumes "\<forall>c \<in> set ws. is_space c" and "stops_number t"
  shows "sscanf (Space # Percent_d # ds) (ws @ show_int (sint q) @ t) = ConvD q # sscanf ds t"
proof -
  obtain c r where "show_int (sint q) = c # r" "\<not> is_space c" using show_int_head by blast
  then have "dropWhile is_space (ws @ show_int (sint q) @ t) = show_int (sint q) @ t"
    using assms(1) by (simp add: dropWhile_all_append)
  then show ?thesis using scan_d_show_int [OF assms(2), of "[]" q] by simp
qed

lemma strcmp_literal [simp]: "NUL \<notin> set s \<Longrightarrow> strcmp_eq b s \<longleftrightarrow> cstr b = s"
  by (simp add: strcmp_eq_def cstr_id)

lemma NUL_chars [simp]:
  "NUL \<noteq> CHR ''c''" "NUL = CHR 0x00 \<longleftrightarrow> True"
  by (simp_all add: NUL_def)

text \<open>Rules that evaluate a conversion of a literal by rewriting.\<close>

lemmas number_eval = atoi_def scan_d_def signed_part_def unsigned_part_def is_digit_def
  digit_val_def is_space_def nat_of_digits_def clamp_long_def show_int_def show_nat.simps
  digit_char_def

end
