(* ===== verification/Billing.thy ===== *)
theory Billing
  imports Prelude
begin

text \<open>
  The contract between an order-taking front end and what keeps the order: items are added in
  some number, and the bill is the sum of price times quantity. Both delivery programs rely on
  it: the server of hw3 keeps six counters and multiplies at the end, the menu program of hw1
  keeps a running total. The client lemmas give the bill of a whole list of requests, as 32-bit
  values without any condition and as integers when the sum fits an \<open>int\<close>.
\<close>

definition add_all :: "('o \<Rightarrow> 'i \<Rightarrow> c_int \<Rightarrow> 'o) \<Rightarrow> 'o \<Rightarrow> ('i \<times> c_int) list \<Rightarrow> 'o" where
  "add_all add b rs = foldl (\<lambda>b (i, q). add b i q) b rs"

lemma add_all_Nil [simp]: "add_all add b [] = b"
  by (simp add: add_all_def)

lemma add_all_Cons [simp]: "add_all add b ((i, q) # rs) = add_all add (add b i q) rs"
  by (simp add: add_all_def)

lemma add_all_append: "add_all add b (rs @ rs') = add_all add (add_all add b rs) rs'"
  by (simp add: add_all_def)

definition int_total :: "('i \<Rightarrow> c_int) \<Rightarrow> ('i \<times> c_int) list \<Rightarrow> int" where
  "int_total price rs = (\<Sum>(i, q) \<leftarrow> rs. sint (price i) * sint q)"

lemma int_total_simps [simp]:
  "int_total price [] = 0"
  "int_total price ((i, q) # rs) = sint (price i) * sint q + int_total price rs"
  by (simp_all add: int_total_def)

lemma word_total:
  "(\<Sum>(i, q) \<leftarrow> rs. price i * q) = (word_of_int (int_total price rs) :: c_int)"
  by (induction rs) (auto simp: of_int_add of_int_mult)

locale billing =
  fixes empty :: 'o
    and add :: "'o \<Rightarrow> 'i \<Rightarrow> c_int \<Rightarrow> 'o"
    and bill :: "'o \<Rightarrow> c_int"
    and price :: "'i \<Rightarrow> c_int"
  assumes bill_empty: "bill empty = 0"
    and bill_add: "bill (add b i q) = bill b + price i * q"
begin

lemma bill_add_all: "bill (add_all add b rs) = bill b + (\<Sum>(i, q) \<leftarrow> rs. price i * q)"
  by (induction rs arbitrary: b) (auto simp: bill_add algebra_simps)

lemma bill_orders: "bill (add_all add empty rs) = (\<Sum>(i, q) \<leftarrow> rs. price i * q)"
  by (simp add: bill_add_all bill_empty)

lemma bill_orders_int:
  "- 2147483648 \<le> int_total price rs \<Longrightarrow> int_total price rs \<le> 2147483647 \<Longrightarrow>
    sint (bill (add_all add empty rs)) = int_total price rs"
  by (simp add: bill_orders word_total sint_word_of_int_c_int)

end

end
