(* ===== verification/Hw3_Order.thy ===== *)
theory Hw3_Order
  imports CLib Billing
begin

text \<open>
  The order of one client of \<open>hw3/hw3.c\<close>: \<open>Order\<close>, \<open>update_item_count\<close>,
  \<open>determine_restaurant\<close>, \<open>compute_price\<close>, \<open>sendtoclient\<close> and \<open>handle_shop_list\<close>.
  The specification side is the catalogue (\<open>item\<close>, \<open>shop\<close> and their names, prices and
  distances); the lemmas show that the string comparisons of the code implement it, that the
  price is the sum the catalogue gives, and what text the client is sent.
\<close>

section \<open>The code\<close>

definition MAX_BUFFER_SIZE :: nat where "MAX_BUFFER_SIZE = 256"

definition NL :: "char list" where "NL = [CHR 0x0A]"

record Order =
  total_cookie :: c_int
  total_cake :: c_int
  total_tea :: c_int
  total_boba :: c_int
  total_fried_rice :: c_int
  total_egg_drop_soup :: c_int
  distance :: c_int

text \<open>\<open>Order order = {0}\<close>\<close>

definition empty_order :: Order where
  "empty_order = \<lparr>total_cookie = 0, total_cake = 0, total_tea = 0, total_boba = 0,
    total_fried_rice = 0, total_egg_drop_soup = 0, distance = 0\<rparr>"

definition handle_shop_list :: "char list" where
  "handle_shop_list =
    ''Dessert shop:3km'' @ NL @ ''- cookie:$60|cake:$80'' @ NL @
    ''Beverage shop:5km'' @ NL @ ''- tea:$40|boba:$70'' @ NL @
    ''Diner:8km'' @ NL @ ''- fried-rice:$120|Egg-drop-soup:$50'' @ NL"

definition update_item_count :: "Order \<Rightarrow> char list \<Rightarrow> c_int \<Rightarrow> Order" where
  "update_item_count ord item quantity =
    (if strcmp_eq item ''cookie'' then ord\<lparr>total_cookie := total_cookie ord + quantity\<rparr>
     else if strcmp_eq item ''cake'' then ord\<lparr>total_cake := total_cake ord + quantity\<rparr>
     else if strcmp_eq item ''tea'' then ord\<lparr>total_tea := total_tea ord + quantity\<rparr>
     else if strcmp_eq item ''boba'' then ord\<lparr>total_boba := total_boba ord + quantity\<rparr>
     else if strcmp_eq item ''fried-rice''
       then ord\<lparr>total_fried_rice := total_fried_rice ord + quantity\<rparr>
     else if strcmp_eq item ''Egg-drop-soup''
       then ord\<lparr>total_egg_drop_soup := total_egg_drop_soup ord + quantity\<rparr>
     else ord)"

text \<open>
  The function writes its static buffer, which all client threads share, and the distance of the
  caller's order; it returns the static buffer. \<open>None\<close>: a \<open>strcpy\<close> past the end of the buffer.
\<close>

definition determine_restaurant ::
  "Order \<Rightarrow> char list \<Rightarrow> char list \<Rightarrow> (Order \<times> char list) option" where
  "determine_restaurant ord static_restaurant item =
    (if strcmp_eq item ''cookie'' \<or> strcmp_eq item ''cake''
     then map_option (\<lambda>r. (ord\<lparr>distance := 3\<rparr>, r)) (strcpy static_restaurant ''Dessert shop'')
     else if strcmp_eq item ''tea'' \<or> strcmp_eq item ''boba''
     then map_option (\<lambda>r. (ord\<lparr>distance := 5\<rparr>, r)) (strcpy static_restaurant ''Beverage shop'')
     else if strcmp_eq item ''fried-rice'' \<or> strcmp_eq item ''Egg-drop-soup''
     then map_option (\<lambda>r. (ord\<lparr>distance := 8\<rparr>, r)) (strcpy static_restaurant ''Diner'')
     else map_option (\<lambda>r. (ord, r)) (strcpy static_restaurant ''Unknown''))"

definition compute_price :: "Order \<Rightarrow> char list \<Rightarrow> c_int" where
  "compute_price ord restaurant =
    (if strcmp_eq restaurant ''Dessert shop''
     then total_cookie ord * 60 + total_cake ord * 80
     else if strcmp_eq restaurant ''Beverage shop''
     then total_tea ord * 40 + total_boba ord * 70
     else if strcmp_eq restaurant ''Diner''
     then total_fried_rice ord * 120 + total_egg_drop_soup ord * 50
     else 0)"

text \<open>\<open>snprintf (message + strlen (message), sizeof (message) - strlen (message), \<dots>)\<close>\<close>

definition append_text :: "char list \<Rightarrow> char list \<Rightarrow> char list" where
  "append_text message s =
    snprintf_at message (length (cstr message)) (MAX_BUFFER_SIZE - length (cstr message)) s"

text \<open>
  One branch of \<open>sendtoclient\<close>: the two items of a restaurant with their quantities, and
  \<open>has_reserved_items\<close>.
\<close>

definition put_items ::
  "char list \<Rightarrow> char list \<Rightarrow> c_int \<Rightarrow> char list \<Rightarrow> c_int \<Rightarrow> char list \<times> bool" where
  "put_items message name1 q1 name2 q2 =
    (let (m1, h1) =
        (if 0 < sint q1
         then (append_text message (name1 @ '' '' @ show_int (sint q1)), True)
         else (message, False))
     in if 0 < sint q2
        then (append_text (if h1 then append_text m1 ''|'' else m1)
                (name2 @ '' '' @ show_int (sint q2)), True)
        else (m1, h1))"

text \<open>The buffers handed to \<open>send\<close> (none or one); \<open>None\<close>: \<open>strcat\<close> past the end.\<close>

definition sendtoclient :: "Order \<Rightarrow> char list \<Rightarrow> char list list option" where
  "sendtoclient ord restaurant =
    (let message = zeros MAX_BUFFER_SIZE;
         (m, has_reserved_items) =
          (if strcmp_eq restaurant ''Dessert shop''
           then put_items message ''cookie'' (total_cookie ord) ''cake'' (total_cake ord)
           else if strcmp_eq restaurant ''Beverage shop''
           then put_items message ''tea'' (total_tea ord) ''boba'' (total_boba ord)
           else if strcmp_eq restaurant ''Diner''
           then put_items message ''fried_rice'' (total_fried_rice ord)
             ''Egg_drop_soup'' (total_egg_drop_soup ord)
           else (message, False))
     in if has_reserved_items then map_option (\<lambda>b. [b]) (strcat m NL) else Some [])"

section \<open>The catalogue\<close>

datatype item = Cookie | Cake | Tea | Boba | FriedRice | EggDropSoup

datatype shop = DessertShop | BeverageShop | DinerShop

lemma item_all:
  "(\<forall>it. P it) \<longleftrightarrow> P Cookie \<and> P Cake \<and> P Tea \<and> P Boba \<and> P FriedRice \<and> P EggDropSoup"
  by (metis item.exhaust)

fun item_name :: "item \<Rightarrow> char list" where
  "item_name Cookie = ''cookie''"
| "item_name Cake = ''cake''"
| "item_name Tea = ''tea''"
| "item_name Boba = ''boba''"
| "item_name FriedRice = ''fried-rice''"
| "item_name EggDropSoup = ''Egg-drop-soup''"

fun item_shop :: "item \<Rightarrow> shop" where
  "item_shop Cookie = DessertShop"
| "item_shop Cake = DessertShop"
| "item_shop Tea = BeverageShop"
| "item_shop Boba = BeverageShop"
| "item_shop FriedRice = DinerShop"
| "item_shop EggDropSoup = DinerShop"

fun item_price :: "item \<Rightarrow> c_int" where
  "item_price Cookie = 60"
| "item_price Cake = 80"
| "item_price Tea = 40"
| "item_price Boba = 70"
| "item_price FriedRice = 120"
| "item_price EggDropSoup = 50"

fun shop_name :: "shop \<Rightarrow> char list" where
  "shop_name DessertShop = ''Dessert shop''"
| "shop_name BeverageShop = ''Beverage shop''"
| "shop_name DinerShop = ''Diner''"

fun shop_km :: "shop \<Rightarrow> c_int" where
  "shop_km DessertShop = 3"
| "shop_km BeverageShop = 5"
| "shop_km DinerShop = 8"

text \<open>The counter of an item, and the item a name stands for.\<close>

fun count :: "Order \<Rightarrow> item \<Rightarrow> c_int" where
  "count ord Cookie = total_cookie ord"
| "count ord Cake = total_cake ord"
| "count ord Tea = total_tea ord"
| "count ord Boba = total_boba ord"
| "count ord FriedRice = total_fried_rice ord"
| "count ord EggDropSoup = total_egg_drop_soup ord"

definition item_of :: "char list \<Rightarrow> item option" where
  "item_of name = find (\<lambda>it. cstr name = item_name it)
    [Cookie, Cake, Tea, Boba, FriedRice, EggDropSoup]"

definition price_at :: "shop \<Rightarrow> char list \<Rightarrow> c_int" where
  "price_at sh name =
    (case item_of name of
      None \<Rightarrow> 0
    | Some it \<Rightarrow> if item_shop it = sh then item_price it else 0)"

text \<open>The lines the client is shown: the items of the shop with a positive counter.\<close>

definition entry :: "char list \<Rightarrow> c_int \<Rightarrow> char list list" where
  "entry name q = (if 0 < sint q then [name @ '' '' @ show_int (sint q)] else [])"

fun shop_entries :: "Order \<Rightarrow> shop \<Rightarrow> char list list" where
  "shop_entries ord DessertShop =
    entry ''cookie'' (total_cookie ord) @ entry ''cake'' (total_cake ord)"
| "shop_entries ord BeverageShop =
    entry ''tea'' (total_tea ord) @ entry ''boba'' (total_boba ord)"
| "shop_entries ord DinerShop =
    entry ''fried_rice'' (total_fried_rice ord) @ entry ''Egg_drop_soup'' (total_egg_drop_soup ord)"

fun join_bar :: "char list list \<Rightarrow> char list" where
  "join_bar [] = []"
| "join_bar [x] = x"
| "join_bar (x # xs) = x @ ''|'' @ join_bar xs"

text \<open>How one item is shown: the name on the menu, but with underscores for the diner's items.\<close>

definition item_text :: "item \<Rightarrow> c_int \<Rightarrow> char list" where
  "item_text it q =
    map (\<lambda>c. if c = CHR ''-'' then CHR ''_'' else c) (item_name it) @ '' '' @ show_int (sint q)"

definition order_text :: "Order \<Rightarrow> shop \<Rightarrow> char list list" where
  "order_text ord sh =
    (let es = shop_entries ord sh in if es = [] then [] else [join_bar es @ NL])"

text \<open>The menu, with the price the code charges for one item and the distance it writes.\<close>

definition menu_item :: "item \<Rightarrow> char list" where
  "menu_item it = item_name it @ '':$'' @
    show_int (sint (compute_price (update_item_count empty_order (item_name it) 1)
      (shop_name (item_shop it))))"

definition menu_shop :: "shop \<Rightarrow> item \<Rightarrow> item \<Rightarrow> char list" where
  "menu_shop sh a b = shop_name sh @ '':'' @
    (case determine_restaurant empty_order (zeros MAX_BUFFER_SIZE) (item_name a) of
       None \<Rightarrow> [] | Some (o', _) \<Rightarrow> show_int (sint (distance o'))) @ ''km'' @ NL @
    ''- '' @ menu_item a @ ''|'' @ menu_item b @ NL"

section \<open>The code implements the catalogue\<close>

lemma names_no_NUL [simp]: "NUL \<notin> set (item_name it)" "NUL \<notin> set (shop_name sh)"
  by (cases it; simp add: NUL_def) (cases sh; simp add: NUL_def)

lemma item_name_inj [simp]: "item_name a = item_name b \<longleftrightarrow> a = b"
  by (cases a; cases b) simp_all

lemma shop_name_inj [simp]: "shop_name a = shop_name b \<longleftrightarrow> a = b"
  by (cases a; cases b) simp_all

lemma item_of_Some: "item_of name = Some it \<longleftrightarrow> cstr name = item_name it"
  by (cases it) (auto simp: item_of_def)

lemma item_of_name [simp]: "item_of (item_name it) = Some it"
  by (simp add: item_of_Some cstr_id)

lemma count_update_item_count:
  "count (update_item_count ord name q) it =
    count ord it + (if item_of name = Some it then q else 0)"
  by (cases it) (auto simp: update_item_count_def item_of_def NUL_def)

lemma distance_update_item_count [simp]: "distance (update_item_count ord name q) = distance ord"
  by (simp add: update_item_count_def)

lemma count_empty_order [simp]: "count empty_order it = 0"
  by (cases it) (simp_all add: empty_order_def)

lemma compute_price_shop:
  "cstr r = shop_name sh \<Longrightarrow> compute_price ord r =
    (\<Sum>it \<leftarrow> filter (\<lambda>it. item_shop it = sh) [Cookie, Cake, Tea, Boba, FriedRice, EggDropSoup].
      item_price it * count ord it)"
  by (cases sh) (simp_all add: compute_price_def NUL_def mult.commute)

lemma compute_price_unknown:
  "cstr r \<notin> range shop_name \<Longrightarrow> compute_price ord r = 0"
proof -
  assume "cstr r \<notin> range shop_name"
  then have "cstr r \<noteq> shop_name sh" for sh by auto
  from this [of DessertShop] this [of BeverageShop] this [of DinerShop]
  show ?thesis by (simp add: compute_price_def NUL_def)
qed

lemmas fields_update_item_count =
  count_update_item_count [where it = Cookie, simplified]
  count_update_item_count [where it = Cake, simplified]
  count_update_item_count [where it = Tea, simplified]
  count_update_item_count [where it = Boba, simplified]
  count_update_item_count [where it = FriedRice, simplified]
  count_update_item_count [where it = EggDropSoup, simplified]

lemma compute_price_update:
  assumes "cstr r = shop_name sh"
  shows "compute_price (update_item_count ord name q) r = compute_price ord r + price_at sh name * q"
proof (cases "item_of name")
  case None
  with assms show ?thesis
    by (cases sh) (simp_all add: compute_price_def NUL_def fields_update_item_count price_at_def)
next
  case (Some it)
  with assms show ?thesis
    by (cases sh; cases it)
      (simp_all add: compute_price_def NUL_def fields_update_item_count price_at_def distrib_left)
qed

text \<open>
  The order of hw3 is a bill in the sense of \<^const>\<open>add_all\<close>, for each restaurant, whatever
  names the client sends: unknown items and items of other restaurants cost nothing.
\<close>

interpretation hw3_bill: billing empty_order update_item_count
  "\<lambda>ord. compute_price ord (shop_name sh)" "price_at sh" for sh
  by unfold_locales (simp add: compute_price_shop [OF cstr_id], simp add: compute_price_update cstr_id)

lemma compute_price_cstr: "cstr r = cstr r' \<Longrightarrow> compute_price ord r = compute_price ord r'"
  by (simp add: compute_price_def strcmp_eq_def)

section \<open>What the client is sent\<close>

text \<open>
  The message never outgrows its 256 bytes: the longest text is 47 characters, so \<open>snprintf\<close>
  never truncates and the unchecked \<open>strcat\<close> has room for the newline.
\<close>

lemma append_text_room:
  assumes "terminated m" and "length m = MAX_BUFFER_SIZE" and "NUL \<notin> set s"
    and "length (cstr m) + length s < MAX_BUFFER_SIZE"
  shows "cstr (append_text m s) = cstr m @ s"
    and "length (append_text m s) = MAX_BUFFER_SIZE"
    and "terminated (append_text m s)"
  using snprintf_append [OF assms(1,3), of "append_text m s"] assms(2,4)
  by (simp_all add: append_text_def)

lemma entry_simps [simp]:
  "0 < sint q \<Longrightarrow> entry name q = [name @ '' '' @ show_int (sint q)]"
  "\<not> 0 < sint q \<Longrightarrow> entry name q = []"
  by (simp_all add: entry_def)

lemma put_items_text:
  assumes "length name1 \<le> 14" and "length name2 \<le> 14" and "NUL \<notin> set name1" and "NUL \<notin> set name2"
    and "put_items (zeros MAX_BUFFER_SIZE) name1 q1 name2 q2 = (m, h)"
  shows "cstr m = join_bar (entry name1 q1 @ entry name2 q2)"
    and "h \<longleftrightarrow> entry name1 q1 @ entry name2 q2 \<noteq> []"
    and "length m = MAX_BUFFER_SIZE" and "length (cstr m) \<le> 53"
proof -
  let ?z = "zeros MAX_BUFFER_SIZE"
  let ?t1 = "name1 @ '' '' @ show_int (sint q1)" and ?t2 = "name2 @ '' '' @ show_int (sint q2)"
  have z: "terminated ?z" "length ?z = MAX_BUFFER_SIZE" "cstr ?z = []"
    by (simp add: terminated_def zeros_def MAX_BUFFER_SIZE_def) simp_all
  have l: "length ?t1 \<le> 26" "length ?t2 \<le> 26" "NUL \<notin> set ?t1" "NUL \<notin> set ?t2"
    using assms(1-4) length_show_int_c_int [of q1] length_show_int_c_int [of q2]
    by (simp_all add: show_int_no_NUL [unfolded NUL_def] NUL_def)
  note M = MAX_BUFFER_SIZE_def
  let ?a = "append_text ?z ?t1" and ?b = "append_text ?z ?t2"
  have a: "cstr ?a = ?t1" "length ?a = MAX_BUFFER_SIZE" "terminated ?a"
    using append_text_room [OF z(1,2) l(3)] z(3) l by (simp_all add: M)
  have b: "cstr ?b = ?t2" "length ?b = MAX_BUFFER_SIZE" "terminated ?b"
    using append_text_room [OF z(1,2) l(4)] z(3) l by (simp_all add: M)
  let ?c = "append_text ?a ''|''"
  have c: "cstr ?c = ?t1 @ ''|''" "length ?c = MAX_BUFFER_SIZE" "terminated ?c"
    using append_text_room [OF a(3,2), of "''|''"] a(1) l by (simp_all add: M NUL_def)
  let ?d = "append_text ?c ?t2"
  have d: "cstr ?d = ?t1 @ ''|'' @ ?t2" "length ?d = MAX_BUFFER_SIZE"
    using append_text_room [OF c(3,2) l(4)] c(1) l by (simp_all add: M)
  have m: "m = (if 0 < sint q1 then if 0 < sint q2 then ?d else ?a
                else if 0 < sint q2 then ?b else ?z)"
    and h: "h \<longleftrightarrow> 0 < sint q1 \<or> 0 < sint q2"
    using assms(5) by (auto simp: put_items_def Let_def split: if_splits)
  show "cstr m = join_bar (entry name1 q1 @ entry name2 q2)"
    using a b d z by (simp add: m)
  show "h \<longleftrightarrow> entry name1 q1 @ entry name2 q2 \<noteq> []"
    by (simp add: h entry_def)
  show "length m = MAX_BUFFER_SIZE" using a b d by (simp add: m)
  show "length (cstr m) \<le> 53" using l a b d by (simp add: m)
qed

lemma strcat_NL:
  assumes "length m = MAX_BUFFER_SIZE" and "length (cstr m) \<le> 53"
  shows "\<exists>b. strcat m NL = Some b \<and> cstr b = cstr m @ NL \<and> length b = MAX_BUFFER_SIZE"
proof -
  have NL: "cstr NL = NL" "length NL = 1" by (simp_all add: NL_def NUL_def)
  obtain b where b: "strcat m NL = Some b"
    using assms NL by (auto simp: strcat_def MAX_BUFFER_SIZE_def)
  moreover have "length (cstr m) + length (cstr NL) < length m"
    using assms NL by (simp add: MAX_BUFFER_SIZE_def)
  ultimately show ?thesis using strcat_append [OF _ b] NL assms(1) by simp
qed

text \<open>One branch of \<open>sendtoclient\<close>: the newline is added and the whole buffer sent.\<close>

lemma put_items_sent:
  assumes "length name1 \<le> 14" and "length name2 \<le> 14" and "NUL \<notin> set name1" and "NUL \<notin> set name2"
  shows "\<exists>bs. (case put_items (zeros MAX_BUFFER_SIZE) name1 q1 name2 q2 of (m, h) \<Rightarrow>
        if h then map_option (\<lambda>b. [b]) (strcat m NL) else Some []) = Some bs \<and>
      map cstr bs =
        (let es = entry name1 q1 @ entry name2 q2 in if es = [] then [] else [join_bar es @ NL]) \<and>
      (\<forall>b \<in> set bs. length b = MAX_BUFFER_SIZE)"
proof -
  obtain m h where mh: "put_items (zeros MAX_BUFFER_SIZE) name1 q1 name2 q2 = (m, h)"
    by (cases "put_items (zeros MAX_BUFFER_SIZE) name1 q1 name2 q2")
  note t = put_items_text [OF assms mh]
  show ?thesis using strcat_NL [OF t(3,4)] t(1,2) by (auto simp: mh Let_def)
qed

lemma sendtoclient_shop:
  assumes "cstr r = shop_name sh"
  shows "\<exists>bs. sendtoclient ord r = Some bs \<and> map cstr bs = order_text ord sh \<and>
    (\<forall>b \<in> set bs. length b = MAX_BUFFER_SIZE)"
  using assms
    put_items_sent [of "''cookie''" "''cake''" "total_cookie ord" "total_cake ord"]
    put_items_sent [of "''tea''" "''boba''" "total_tea ord" "total_boba ord"]
    put_items_sent [of "''fried_rice''" "''Egg_drop_soup''" "total_fried_rice ord"
      "total_egg_drop_soup ord"]
  by (cases sh) (simp_all add: sendtoclient_def order_text_def NUL_def case_prod_unfold Let_def)

lemma sendtoclient_unknown:
  assumes "cstr r \<notin> range shop_name" shows "sendtoclient ord r = Some []"
proof -
  have "cstr r \<noteq> shop_name sh" for sh using assms by auto
  from this [of DessertShop] this [of BeverageShop] this [of DinerShop]
  show ?thesis by (simp add: sendtoclient_def NUL_def)
qed

lemma sendtoclient_total: "\<exists>bs. sendtoclient ord r = Some bs"
  using sendtoclient_shop sendtoclient_unknown by (cases "cstr r \<in> range shop_name") fast+

section \<open>The restaurant of an order\<close>

lemma determine_restaurant_item:
  assumes "item_of name = Some it" and "length st = MAX_BUFFER_SIZE"
  shows "\<exists>r. determine_restaurant ord st name =
      Some (ord\<lparr>distance := shop_km (item_shop it)\<rparr>, r) \<and>
    cstr r = shop_name (item_shop it) \<and> length r = MAX_BUFFER_SIZE"
proof -
  have "length (cstr (shop_name (item_shop it))) < length st"
    using assms(2) by (cases it) (simp_all add: MAX_BUFFER_SIZE_def NUL_def)
  then obtain r where r: "strcpy st (shop_name (item_shop it)) = Some r" using strcpy_fits by blast
  from assms(1) r have "determine_restaurant ord st name =
      Some (ord\<lparr>distance := shop_km (item_shop it)\<rparr>, r)"
    by (cases it) (simp_all add: item_of_Some determine_restaurant_def NUL_def)
  then show ?thesis using strcpy_Some [OF r] assms(2) by (simp add: cstr_id)
qed

lemma determine_restaurant_unknown:
  assumes "item_of name = None" and "length st = MAX_BUFFER_SIZE"
  shows "\<exists>r. determine_restaurant ord st name = Some (ord, r) \<and>
    cstr r = ''Unknown'' \<and> length r = MAX_BUFFER_SIZE"
proof -
  have "length (cstr ''Unknown'') < length st"
    using assms(2) by (simp add: MAX_BUFFER_SIZE_def NUL_def)
  then obtain r where r: "strcpy st ''Unknown'' = Some r" using strcpy_fits by blast
  have "cstr name \<noteq> item_name it" for it
    using assms(1) item_of_Some [of name it] by simp
  from this [of Cookie] this [of Cake] this [of Tea] this [of Boba] this [of FriedRice]
    this [of EggDropSoup] r
  have "determine_restaurant ord st name = Some (ord, r)"
    by (simp add: determine_restaurant_def NUL_def)
  then show ?thesis using strcpy_Some [OF r] assms(2) by (simp add: NUL_def)
qed

text \<open>Both cases in one fact: the call never overflows and writes only name and distance.\<close>

lemma determine_restaurant_total:
  assumes "length st = MAX_BUFFER_SIZE"
  shows "\<exists>ord' r. determine_restaurant ord st name = Some (ord', r) \<and> length r = MAX_BUFFER_SIZE"
  using determine_restaurant_item [OF _ assms] determine_restaurant_unknown [OF _ assms]
  by (cases "item_of name") blast+

lemma determine_restaurant_frame:
  assumes "determine_restaurant ord st name = Some (ord', r)" and "length st = MAX_BUFFER_SIZE"
  shows "count ord' it = count ord it"
    and "distance ord' \<in> {distance ord, 3, 5, 8}"
    and "length r = MAX_BUFFER_SIZE" and "terminated r"
  using assms by (cases it; auto simp: determine_restaurant_def dest: strcpy_Some split: if_splits)+

end
