(* ===== verification/Pthread.thy ===== *)
theory Pthread
  imports Prelude
begin

text \<open>
  Mutexes of the POSIX threads library, of the default kind that both servers use: the holder,
  if any. Locking a mutex that is held is not possible now (the caller waits, also when the
  holder is the caller itself). Unlocking frees the mutex whoever holds it: that is what the GNU
  library does for the default kind, which records no error; POSIX leaves the call undefined
  unless the caller holds the mutex, and the components record such calls in their state.
\<close>

type_synonym 't mutex = "'t option"

definition mutex_free :: "'t mutex" where "mutex_free = None"

definition mutex_lock :: "'t mutex \<Rightarrow> 't \<Rightarrow> 't mutex option" where
  "mutex_lock m t = (case m of None \<Rightarrow> Some (Some t) | Some _ \<Rightarrow> None)"

definition mutex_unlock :: "'t mutex \<Rightarrow> 't mutex" where
  "mutex_unlock m = None"

definition holds :: "'t mutex \<Rightarrow> 't \<Rightarrow> bool" where
  "holds m t \<longleftrightarrow> m = Some t"

lemma mutex_lock_Some [simp]: "mutex_lock m t = Some m' \<longleftrightarrow> m = None \<and> m' = Some t"
  by (auto simp: mutex_lock_def split: option.splits)

lemma mutex_lock_free [simp]: "mutex_lock None t = Some (Some t)"
  by (simp add: mutex_lock_def)

lemma mutex_lock_taken [simp]: "mutex_lock (Some u) t = None"
  by (simp add: mutex_lock_def)

lemma mutex_unlock_None [simp]: "mutex_unlock m = None"
  by (simp add: mutex_unlock_def)

lemma holds_iff [simp]: "holds m t \<longleftrightarrow> m = Some t"
  by (simp add: holds_def)

end
