(* ===== verification/Hw3_Server.thy ===== *)
theory Hw3_Server
  imports Hw3_Order Pthread
begin

text \<open>
  The delivery server of \<open>hw3/hw3.c\<close> as a transition system. Every client has a thread in
  \<open>handleclient\<close>; the threads share the two delivery persons, their mutexes, the two time mutexes
  and the static buffer of \<open>determine_restaurant\<close>.

  A step is one thread moving from one program point (\<open>pc\<close>) to the next; between two points the
  thread touches shared memory at most once, so that a load and the store that follows it can be
  separated by other threads. Reading a socket is an event that carries the bytes.

  History variables the code does not have: \<open>misuse\<close> (some thread has unlocked a mutex it did not
  hold), \<open>booked\<close> (this client's distance has been added to a person's time) and \<open>requests\<close> (the
  order requests of this client). No step depends on them.
\<close>

section \<open>State\<close>

datatype person = Person1 | Person2

type_synonym tid = nat

datatype pc =
    Reading
  | Copying
  | Choosing
  | Comparing int
  | Locking person
  | Testing person
  | Prompted person
  | Refusing person
  | BookLoading person bool
  | BookStoring person bool int
  | YesUnlocking person
  | LeakLocking
  | Unlocking person bool
  | TimeLocking person
  | Sleeping person
  | DecLocking person
  | DecLoading person
  | DecStoring person int
  | DecUnlocking person
  | TimeUnlocking person
  | Arriving
  | Closed
  | Undefined

record client =
  pc :: pc
  buffer :: "char list"
  response :: "char list"
  ord :: Order
  restaurant :: "char list"
  firstorder :: bool
  ord_item :: "char list"
  quantity :: c_int
  deliver :: "person option"
  total_price :: c_int
  loop_i :: int
  outbox :: "char list list"
  booked :: bool
  requests :: "(char list \<times> c_int) list"

record server =
  static_restaurant :: "char list"
  next_available_time :: "person \<Rightarrow> int"
  person_mutex :: "person \<Rightarrow> tid mutex"
  time_mutex :: "person \<Rightarrow> tid mutex"
  clients :: "client list"
  misuse :: bool

text \<open>The start of \<open>handleclient\<close>, and the state after the first loop of \<open>main\<close>.\<close>

definition new_client :: client where
  "new_client = \<lparr>pc = Reading, buffer = zeros MAX_BUFFER_SIZE, response = zeros MAX_BUFFER_SIZE,
    ord = empty_order, restaurant = zeros MAX_BUFFER_SIZE, firstorder = True,
    ord_item = zeros MAX_BUFFER_SIZE, quantity = 0, deliver = None, total_price = 0, loop_i = 0,
    outbox = [], booked = False, requests = []\<rparr>"

definition server_start :: server where
  "server_start = \<lparr>static_restaurant = zeros MAX_BUFFER_SIZE,
    next_available_time = (\<lambda>_. 0), person_mutex = (\<lambda>_. mutex_free),
    time_mutex = (\<lambda>_. mutex_free), clients = [], misuse = False\<rparr>"

section \<open>Locks and messages\<close>

definition lock_person :: "server \<Rightarrow> tid \<Rightarrow> person \<Rightarrow> server option" where
  "lock_person s t d = map_option (\<lambda>m. s\<lparr>person_mutex := (person_mutex s)(d := m)\<rparr>)
    (mutex_lock (person_mutex s d) t)"

definition unlock_person :: "server \<Rightarrow> tid \<Rightarrow> person \<Rightarrow> server" where
  "unlock_person s t d =
    s\<lparr>person_mutex := (person_mutex s)(d := mutex_unlock (person_mutex s d)),
      misuse := misuse s \<or> \<not> holds (person_mutex s d) t\<rparr>"

definition lock_time :: "server \<Rightarrow> tid \<Rightarrow> person \<Rightarrow> server option" where
  "lock_time s t d = map_option (\<lambda>m. s\<lparr>time_mutex := (time_mutex s)(d := m)\<rparr>)
    (mutex_lock (time_mutex s d) t)"

definition unlock_time :: "server \<Rightarrow> tid \<Rightarrow> person \<Rightarrow> server" where
  "unlock_time s t d =
    s\<lparr>time_mutex := (time_mutex s)(d := mutex_unlock (time_mutex s d)),
      misuse := misuse s \<or> \<not> holds (time_mutex s d) t\<rparr>"

text \<open>\<open>snprintf (response, sizeof (response), \<dots>)\<close> and \<open>send\<close> of the whole buffer.\<close>

definition respond :: "client \<Rightarrow> char list \<Rightarrow> client" where
  "respond c txt =
    (let r = snprintf_at (response c) 0 MAX_BUFFER_SIZE txt
     in c\<lparr>response := r, outbox := outbox c @ [r]\<rparr>)"

definition msg_order_first :: "char list" where
  "msg_order_first = ''Please order some meals'' @ NL"

definition msg_long_time :: "char list" where
  "msg_long_time = ''Your delivery will take a long time, do you want to wait?'' @ NL"

definition msg_wait :: "char list" where
  "msg_wait = ''Please wait a few minutes...'' @ NL"

definition msg_arrived :: "c_int \<Rightarrow> char list" where
  "msg_arrived p =
    ''Delivery has arrived and you need to pay '' @ show_int (sint p) @ ''$'' @ NL"

definition msg_unknown :: "char list" where
  "msg_unknown = ''Unknown request'' @ NL"

section \<open>Requests\<close>

text \<open>
  \<open>sscanf (buffer, "order %s %d", item, &quantity)\<close> with both variables zero before; the word
  is stored in the 256 bytes of \<open>item\<close>.
\<close>

definition parse_order :: "char list \<Rightarrow> (char list \<times> c_int) option" where
  "parse_order buf =
    (case sscanf (map Literal ''order'' @ [Space, Percent_s, Space, Percent_d]) (cstr buf) of
       ConvS w # ConvD q # _ \<Rightarrow> map_option (\<lambda>it. (it, q)) (strcpy (zeros MAX_BUFFER_SIZE) w)
     | ConvS w # _ \<Rightarrow> map_option (\<lambda>it. (it, 0)) (strcpy (zeros MAX_BUFFER_SIZE) w)
     | _ \<Rightarrow> Some (zeros MAX_BUFFER_SIZE, 0))"

text \<open>\<open>update_item_count\<close> and \<open>sendtoclient\<close> with the restaurant of this client.\<close>

definition take_order :: "client \<Rightarrow> client" where
  "take_order c =
    (let o' = update_item_count (ord c) (ord_item c) (quantity c)
     in case sendtoclient o' (restaurant c) of
          None \<Rightarrow> c\<lparr>pc := Undefined\<rparr>
        | Some ms \<Rightarrow> c\<lparr>ord := o', outbox := outbox c @ ms, pc := Reading,
            requests := requests c @ [(ord_item c, quantity c)]\<rparr>)"

definition handle_order :: "server \<Rightarrow> client \<Rightarrow> server \<times> client" where
  "handle_order s c =
    (case parse_order (buffer c) of
       None \<Rightarrow> (s, c\<lparr>pc := Undefined\<rparr>)
     | Some (it, q) \<Rightarrow>
         (let c' = c\<lparr>ord_item := it, quantity := q\<rparr>
          in if firstorder c'
             then (case determine_restaurant (ord c') (static_restaurant s) it of
                     None \<Rightarrow> (s, c'\<lparr>pc := Undefined\<rparr>)
                   | Some (o', st) \<Rightarrow> (s\<lparr>static_restaurant := st\<rparr>, c'\<lparr>ord := o', pc := Copying\<rparr>))
             else (s, take_order c')))"

text \<open>\<open>cancel\<close> leaves the loop, anything else is answered as unknown.\<close>

definition handle_other :: "client \<Rightarrow> client" where
  "handle_other c =
    (if strncmp_eq (buffer c) ''cancel'' 6 then c\<lparr>pc := Closed\<rparr> else respond c msg_unknown)"

text \<open>
  One turn of the loop up to the first shared access: \<open>memset\<close> of both buffers, \<open>read\<close>, and the
  choice of the request. 256 bytes without a NUL are printed past the end of the buffer.
\<close>

definition handle_request :: "server \<Rightarrow> client \<Rightarrow> char list \<Rightarrow> server \<times> client" where
  "handle_request s c bytes =
    (let c' = c\<lparr>buffer := overlay bytes (zeros MAX_BUFFER_SIZE), response := zeros MAX_BUFFER_SIZE\<rparr>
     in if bytes = [] then (s, c'\<lparr>pc := Closed\<rparr>)
        else if \<not> terminated (buffer c') then (s, c'\<lparr>pc := Undefined\<rparr>)
        else if strncmp_eq (buffer c') ''order'' 5 then handle_order s c'
        else if strncmp_eq (buffer c') ''shop list'' 9
          then (s, c'\<lparr>outbox := outbox c' @ [handle_shop_list]\<rparr>)
        else if strncmp_eq (buffer c') ''confirm'' 7
          then (if firstorder c' then (s, respond c' msg_order_first)
                else (s, c'\<lparr>deliver := None, total_price := compute_price (ord c') (restaurant c'),
                       pc := Choosing\<rparr>))
        else (s, handle_other c'))"

text \<open>
  The answer to the prompt, read over the old contents of the buffer (a failing or empty \<open>read\<close>
  leaves it as it is).
\<close>

definition handle_answer :: "client \<Rightarrow> person \<Rightarrow> char list \<Rightarrow> client" where
  "handle_answer c d bytes =
    (let c' = c\<lparr>buffer := overlay bytes (buffer c)\<rparr>
     in if strncmp_eq (buffer c') ''No'' 2 then c'\<lparr>pc := Refusing d\<rparr>
        else if strncmp_eq (buffer c') ''Yes'' 3 then c'\<lparr>pc := BookLoading d True\<rparr>
        else c'\<lparr>pc := Unlocking d False\<rparr>)"

lemma handle_request_def_full:
  "handle_request s c bytes =
    (let c' = c\<lparr>buffer := overlay bytes (zeros MAX_BUFFER_SIZE), response := zeros MAX_BUFFER_SIZE\<rparr>
     in if bytes = [] then (s, c'\<lparr>pc := Closed\<rparr>)
        else if \<not> terminated (buffer c') then (s, c'\<lparr>pc := Undefined\<rparr>)
        else if strncmp_eq (buffer c') ''order'' 5 then handle_order s c'
        else if strncmp_eq (buffer c') ''shop list'' 9
          then (s, c'\<lparr>outbox := outbox c' @ [handle_shop_list]\<rparr>)
        else if strncmp_eq (buffer c') ''confirm'' 7
          then (if firstorder c' then (s, respond c' msg_order_first)
                else (s, c'\<lparr>deliver := None, total_price := compute_price (ord c') (restaurant c'),
                       pc := Choosing\<rparr>))
        else if strncmp_eq (buffer c') ''cancel'' 6 then (s, c'\<lparr>pc := Closed\<rparr>)
        else (s, respond c' msg_unknown))"
  by (simp add: handle_request_def handle_other_def Let_def)

section \<open>Steps\<close>

text \<open>
  The steps of a thread that read no socket. The two branches of the code for the two delivery
  persons differ in one place: after a Yes for the second person the code locks \<open>mutex_time1\<close>
  (\<open>LeakLocking\<close>).
\<close>

definition thread_step :: "server \<Rightarrow> tid \<Rightarrow> client \<Rightarrow> (server \<times> client) option" where
  "thread_step s t c =
    (case pc c of
       Copying \<Rightarrow>
         (case strcpy (restaurant c) (static_restaurant s) of
            None \<Rightarrow> Some (s, c\<lparr>pc := Undefined\<rparr>)
          | Some r \<Rightarrow> Some (s, take_order (c\<lparr>restaurant := r, firstorder := False\<rparr>)))
     | Choosing \<Rightarrow> Some (s, c\<lparr>pc := Comparing (next_available_time s Person1)\<rparr>)
     | Comparing v \<Rightarrow>
         Some (s, c\<lparr>pc := Locking
           (if v \<le> next_available_time s Person2 then Person1 else Person2)\<rparr>)
     | Locking d \<Rightarrow> map_option (\<lambda>s'. (s', c\<lparr>deliver := Some d, pc := Testing d\<rparr>)) (lock_person s t d)
     | Testing d \<Rightarrow>
         (if next_available_time s d + sint (distance (ord c)) > 30
          then Some (s, (respond c msg_long_time)\<lparr>pc := Prompted d\<rparr>)
          else Some (s, c\<lparr>pc := BookLoading d False\<rparr>))
     | Refusing d \<Rightarrow> Some (unlock_person s t d, c\<lparr>pc := Closed\<rparr>)
     | BookLoading d yes \<Rightarrow> Some (s, c\<lparr>pc := BookStoring d yes (next_available_time s d)\<rparr>)
     | BookStoring d yes v \<Rightarrow>
         Some (s\<lparr>next_available_time := (next_available_time s)(d := v + sint (distance (ord c)))\<rparr>,
           c\<lparr>booked := True, pc := (if yes then YesUnlocking d else Unlocking d False)\<rparr>)
     | YesUnlocking d \<Rightarrow>
         Some (unlock_person s t d,
           c\<lparr>pc := (case d of Person1 \<Rightarrow> Unlocking Person1 True | Person2 \<Rightarrow> LeakLocking)\<rparr>)
     | LeakLocking \<Rightarrow>
         map_option (\<lambda>s'. (s', c\<lparr>pc := Unlocking Person2 True\<rparr>)) (lock_time s t Person1)
     | Unlocking d yes \<Rightarrow>
         Some (unlock_person s t d, (respond c msg_wait)\<lparr>pc := TimeLocking d\<rparr>)
     | TimeLocking d \<Rightarrow>
         map_option (\<lambda>s'. (s', c\<lparr>loop_i := 0, pc := Sleeping d\<rparr>)) (lock_time s t d)
     | Sleeping d \<Rightarrow>
         Some (s, c\<lparr>pc := (if loop_i c < sint (distance (ord c)) then DecLocking d
                             else TimeUnlocking d)\<rparr>)
     | DecLocking d \<Rightarrow> map_option (\<lambda>s'. (s', c\<lparr>pc := DecLoading d\<rparr>)) (lock_person s t d)
     | DecLoading d \<Rightarrow> Some (s, c\<lparr>pc := DecStoring d (next_available_time s d)\<rparr>)
     | DecStoring d v \<Rightarrow>
         Some (s\<lparr>next_available_time := (next_available_time s)(d := v - 1)\<rparr>,
           c\<lparr>pc := DecUnlocking d\<rparr>)
     | DecUnlocking d \<Rightarrow>
         Some (unlock_person s t d, c\<lparr>loop_i := loop_i c + 1, pc := Sleeping d\<rparr>)
     | TimeUnlocking d \<Rightarrow> Some (unlock_time s t d, c\<lparr>pc := Arriving\<rparr>)
     | Arriving \<Rightarrow> Some (s, (respond c (msg_arrived (total_price c)))\<lparr>pc := Closed\<rparr>)
     | _ \<Rightarrow> None)"

text \<open>
  Events: a connection is accepted and its thread created, or the attempt fails (in \<open>malloc\<close>,
  \<open>accept\<close> or \<open>pthread_create\<close>) and the loop goes on; bytes arrive for a thread that waits in
  \<open>read\<close>; a thread runs one step.
\<close>

datatype event = Accept | AcceptFailed | Recv tid "char list" | Run tid

definition put_client :: "server \<Rightarrow> tid \<Rightarrow> client \<Rightarrow> server" where
  "put_client s t c = s\<lparr>clients := (clients s)[t := c]\<rparr>"

definition recv_step :: "server \<Rightarrow> tid \<Rightarrow> client \<Rightarrow> char list \<Rightarrow> (server \<times> client) option" where
  "recv_step s t c bytes =
    (if length bytes \<le> MAX_BUFFER_SIZE
     then (case pc c of
             Reading \<Rightarrow> Some (handle_request s c bytes)
           | Prompted d \<Rightarrow> Some (s, handle_answer c d bytes)
           | _ \<Rightarrow> None)
     else None)"

fun server_step :: "server \<Rightarrow> event \<Rightarrow> server option" where
  "server_step s Accept = Some (s\<lparr>clients := clients s @ [new_client]\<rparr>)"
| "server_step s AcceptFailed = Some s"
| "server_step s (Recv t bytes) =
    (if t < length (clients s)
     then map_option (\<lambda>(s', c). put_client s' t c) (recv_step s t (clients s ! t) bytes)
     else None)"
| "server_step s (Run t) =
    (if t < length (clients s)
     then map_option (\<lambda>(s', c). put_client s' t c) (thread_step s t (clients s ! t))
     else None)"

end
