(* ===== verification/Hw3_Accounting.thy ===== *)
theory Hw3_Accounting
  imports Hw3_Invariants
begin

text \<open>
  The time of a delivery person is exactly what the clients assigned to that person have added
  and not yet taken away, in every reachable state in which nobody has unlocked a foreign mutex.
  The same induction gives the well-formedness of every client, without that condition.
\<close>

section \<open>What one client contributes\<close>

definition contribution :: "person \<Rightarrow> client \<Rightarrow> int" where
  "contribution d c =
    (if deliver c = Some d
     then (if booked c then km c else 0) - loop_i c - (if pc c = DecUnlocking d then 1 else 0)
     else 0)"

text \<open>A value read from memory and not yet written back is still the value in memory.\<close>

fun register_ok :: "server \<Rightarrow> pc \<Rightarrow> bool" where
  "register_ok s (BookStoring d yes v) \<longleftrightarrow> v = next_available_time s d"
| "register_ok s (DecStoring d v) \<longleftrightarrow> v = next_available_time s d"
| "register_ok s _ \<longleftrightarrow> True"

definition accounts :: "server \<Rightarrow> bool" where
  "accounts s \<longleftrightarrow>
    (\<forall>d. next_available_time s d = (\<Sum>c \<leftarrow> clients s. contribution d c)) \<and>
    (\<forall>c \<in> set (clients s). register_ok s (pc c))"

definition accounting_inv :: "server \<Rightarrow> bool" where
  "accounting_inv s \<longleftrightarrow> server_wf s \<and> person_inv s \<and> (misuse s \<or> accounts s)"

section \<open>One move\<close>

lemma register_section:
  "register_ok s p \<Longrightarrow> (\<And>d. person_section p = Some d \<Longrightarrow>
      next_available_time s1 d = next_available_time s d) \<Longrightarrow> register_ok s1 p"
  by (cases p) auto

lemma thread_step_accounts:
  assumes "thread_step s t c = Some (s1, c1)" and "client_wf c" and "register_ok s (pc c)"
  shows "next_available_time s1 d = next_available_time s d + contribution d c1 - contribution d c"
    and "register_ok s1 (pc c1)"
    and "next_available_time s1 d \<noteq> next_available_time s d \<Longrightarrow> person_section (pc c) = Some d"
proof -
  from assms(2) have wf: "pc_wf (pc c) c" by (simp add: client_wf_def)
  have "next_available_time s1 d = next_available_time s d + contribution d c1 - contribution d c"
    using assms(1,3) wf
    by (cases "pc c"; clarsimp simp: thread_step_def lock_simps take_order_pc take_order_frame
        km_def [symmetric] dest!: lock_frame split: option.splits if_splits person.splits)
      (auto simp: contribution_def take_order_pc take_order_frame)
  moreover have "register_ok s1 (pc c1)"
    using assms(1)
    by (cases "pc c") (auto simp: thread_step_def take_order_pc split: option.splits if_splits
        person.splits)
  moreover have "next_available_time s1 d \<noteq> next_available_time s d \<Longrightarrow>
    person_section (pc c) = Some d"
    using assms(1)
    by (cases "pc c") (auto simp: thread_step_def lock_simps dest!: lock_frame
        split: option.splits if_splits)
  ultimately show
    "next_available_time s1 d = next_available_time s d + contribution d c1 - contribution d c"
    "register_ok s1 (pc c1)"
    "next_available_time s1 d \<noteq> next_available_time s d \<Longrightarrow> person_section (pc c) = Some d"
    by blast+
qed

lemma recv_step_accounts:
  assumes "recv_step s t c bytes = Some (s1, c1)" and "client_wf c"
  shows "next_available_time s1 = next_available_time s"
    and "contribution d c1 = contribution d c" and "register_ok s1 (pc c1)"
proof -
  from assms(2) have wf: "pc_wf (pc c) c" by (simp add: client_wf_def)
  have "next_available_time s1 = next_available_time s \<and> contribution d c1 = contribution d c \<and>
    register_ok s1 (pc c1)"
    using assms(1)
  proof (cases rule: recv_step_cases)
    case request
    note sh = handle_request_shared [OF request(2,1)]
    from wf request(1) have "deliver c = None" by simp
    with sh(6) have "deliver c1 = None" by auto
    with sh(1,9) \<open>deliver c = None\<close> show ?thesis by (auto simp: contribution_def)
  next
    case (answer d')
    have "pc c \<noteq> DecUnlocking d" "pc (handle_answer c d' bytes) \<noteq> DecUnlocking d"
      using answer(2) handle_answer_shared(6) [of c d' bytes] answer(1) by auto
    with answer handle_answer_shared [of c d' bytes] show ?thesis
      by (auto simp: contribution_def km_def)
  qed
  then show "next_available_time s1 = next_available_time s"
    and "contribution d c1 = contribution d c" and "register_ok s1 (pc c1)" by blast+
qed

lemma move_accounts:
  assumes "moves s t c s1 c1" and "client_wf c" and "register_ok s (pc c)"
  shows "next_available_time s1 d = next_available_time s d + contribution d c1 - contribution d c"
    and "register_ok s1 (pc c1)"
    and "next_available_time s1 d \<noteq> next_available_time s d \<Longrightarrow> person_section (pc c) = Some d"
proof -
  have "next_available_time s1 d = next_available_time s d + contribution d c1 - contribution d c \<and>
    register_ok s1 (pc c1) \<and>
    (next_available_time s1 d \<noteq> next_available_time s d \<longrightarrow> person_section (pc c) = Some d)"
    using assms(1) unfolding moves_def
  proof (elim disjE exE)
    assume "thread_step s t c = Some (s1, c1)"
    from thread_step_accounts [OF this assms(2,3)] show ?thesis by blast
  next
    fix bytes assume "recv_step s t c bytes = Some (s1, c1)"
    from recv_step_accounts [OF this assms(2)] show ?thesis by simp
  qed
  then show
    "next_available_time s1 d = next_available_time s d + contribution d c1 - contribution d c"
    "register_ok s1 (pc c1)"
    "next_available_time s1 d \<noteq> next_available_time s d \<Longrightarrow> person_section (pc c) = Some d"
    by blast+
qed

lemma move_wf:
  assumes "moves s t c s1 c1" and "client_wf c" and "static_ok (static_restaurant s)"
  shows "static_ok (static_restaurant s1)" and "client_wf c1"
proof -
  have "static_ok (static_restaurant s1) \<and> client_wf c1"
    using assms(1) unfolding moves_def
  proof (elim disjE exE)
    assume "thread_step s t c = Some (s1, c1)"
    with thread_step_wf assms(2,3) show ?thesis by blast
  next
    fix bytes assume "recv_step s t c bytes = Some (s1, c1)"
    then show ?thesis
      using handle_request_wf handle_answer_wf assms(2,3) by (auto elim!: recv_step_cases)
  qed
  then show "static_ok (static_restaurant s1)" and "client_wf c1" by blast+
qed

section \<open>The invariant\<close>

lemma new_client_wf: "client_wf new_client"
  by (simp add: client_wf_def new_client_def km_def possible_km_def empty_order_def sizes_def)

lemma contribution_new [simp]: "contribution d new_client = 0"
  by (simp add: contribution_def new_client_def)

lemma move_server_wf:
  assumes "server_wf s" and "t < length (clients s)" and "moves s t (clients s ! t) s1 c1"
  shows "server_wf (put_client s1 t c1)"
proof -
  have "client_wf (clients s ! t)" using assms(1,2) by (simp add: server_wf_def)
  from move_wf [OF assms(3) this] assms(1) moves_clients [OF assms(3)] show ?thesis
    by (auto simp: server_wf_def dest: set_update_subset_insert [THEN subsetD])
qed

lemma register_ok_put [simp]: "register_ok (put_client s t c) p = register_ok s p"
  by (cases p) simp_all

lemma register_ok_accept [simp]:
  "register_ok (s\<lparr>clients := cs\<rparr>) p = register_ok s p"
  by (cases p) simp_all

lemma move_accounts_all:
  assumes "accounts s" and "server_wf s" and "person_inv s" and "\<not> misuse s"
    and "t < length (clients s)" and "moves s t (clients s ! t) s1 c1"
  shows "accounts (put_client s1 t c1)"
proof -
  let ?c = "clients s ! t"
  note cl = moves_clients [OF assms(6)]
  have c: "client_wf ?c" "register_ok s (pc ?c)"
    using assms(1,2,5) by (simp_all add: server_wf_def accounts_def)
  note m = move_accounts [OF assms(6) c]
  have others: "register_ok s1 (pc (clients s ! u))" if "u < length (clients s)" "u \<noteq> t" for u
  proof (rule register_section)
    show "register_ok s (pc (clients s ! u))" using assms(1) that(1) by (simp add: accounts_def)
  next
    fix d assume "person_section (pc (clients s ! u)) = Some d"
    with that(1) assms(3,4) have "person_mutex s d = Some u"
      by (simp add: person_inv_def in_section_def)
    with that(2) assms(3-5) have "person_section (pc ?c) \<noteq> Some d"
      by (auto simp: person_inv_def in_section_def)
    with m(3) show "next_available_time s1 d = next_available_time s d" by blast
  qed
  have "register_ok s1 (pc c')" if "c' \<in> set ((clients s)[t := c1])" for c'
  proof -
    from that obtain u where "u < length (clients s)" "c' = (clients s)[t := c1] ! u"
      by (auto simp: in_set_conv_nth)
    with others m(2) show ?thesis by (cases "u = t") simp_all
  qed
  moreover have "next_available_time s1 d = (\<Sum>c \<leftarrow> (clients s)[t := c1]. contribution d c)" for d
    using assms(1,5) m(1) [of d] by (simp add: sum_list_update_int accounts_def)
  ultimately show ?thesis by (simp add: accounts_def cl)
qed

interpretation hw3_accounting: inductive_invariant server_start server_step accounting_inv
proof unfold_locales
  show "accounting_inv server_start"
    using hw3_person.inv_start
    by (simp add: accounting_inv_def accounts_def server_wf_def server_start_def static_ok_def
        terminated_def zeros_def MAX_BUFFER_SIZE_def)
next
  fix s e s' assume inv: "accounting_inv s" and step: "server_step s e = Some s'"
  have "person_inv s'" using hw3_person.inv_step [OF _ step] inv by (simp add: accounting_inv_def)
  moreover have "server_wf s' \<and> (misuse s' \<or> accounts s')"
    using step
  proof (cases rule: server_step_cases)
    case accept
    with inv show ?thesis
      by (auto simp: accounting_inv_def server_wf_def accounts_def new_client_wf)
  next
    case failed
    with inv show ?thesis by (simp add: accounting_inv_def)
  next
    case (move t s1 c1)
    with inv show ?thesis
      using move_server_wf [OF _ move(1,2)] move_accounts_all [OF _ _ _ _ move(1,2)]
        misuse_stays [OF move(2)]
      by (auto simp: accounting_inv_def)
  qed
  ultimately show "accounting_inv s'" by (simp add: accounting_inv_def)
qed

end
