(* ===== verification/Hw3_Session.thy ===== *)
theory Hw3_Session
  imports Hw3_Accounting
begin

text \<open>
  What a client that is served without interruption gets: the server reads back the request the
  client wrote, the first order fixes the restaurant and its distance, and \<open>confirm\<close> books the
  delivery person who is free first. The lemmas are about runs of the transition system from
  any state in which the locks involved are free.
\<close>

section \<open>Requests as text\<close>

definition order_request :: "char list \<Rightarrow> c_int \<Rightarrow> char list" where
  "order_request name q = ''order '' @ name @ '' '' @ show_int (sint q) @ NL"

definition confirm_request :: "char list" where
  "confirm_request = ''confirm'' @ NL"

lemma NL_simps [simp]: "cstr NL = NL" "NUL \<notin> set NL" "length NL = 1"
  by (simp_all add: NL_def NUL_def)

lemma parse_order_request:
  assumes "cstr buf = order_request name q" and "name \<noteq> []" and "NUL \<notin> set name"
    and "\<forall>c \<in> set name. \<not> is_space c" and "length name < MAX_BUFFER_SIZE"
  shows "\<exists>it. parse_order buf = Some (it, q) \<and> cstr it = name"
proof -
  have "sscanf (map Literal ''order'' @ [Space, Percent_s, Space, Percent_d]) (order_request name q) =
    sscanf [Space, Percent_s, Space, Percent_d] ('' '' @ name @ '' '' @ show_int (sint q) @ NL)"
    using sscanf_literals [of "''order''" "[Space, Percent_s, Space, Percent_d]"]
    by (simp add: order_request_def)
  also have "\<dots> = ConvS name # sscanf [Space, Percent_d] ('' '' @ show_int (sint q) @ NL)"
    using assms(2,4) by (intro sscanf_space_word) (simp_all add: stops_word_def)
  also have "\<dots> = [ConvS name, ConvD q]"
    by (subst sscanf_space_number) (simp_all add: stops_number_def is_digit_def NL_def)
  finally have scan: "sscanf (map Literal ''order'' @ [Space, Percent_s, Space, Percent_d])
    (order_request name q) = [ConvS name, ConvD q]" .
  obtain it where it: "strcpy (zeros MAX_BUFFER_SIZE) name = Some it"
    using strcpy_fits [of name "zeros MAX_BUFFER_SIZE"] assms(3,5) by (auto simp: cstr_id)
  show ?thesis using scan it strcpy_Some(1) [OF it] assms(1,3)
    by (simp add: parse_order_def cstr_id del: sscanf.simps)
qed

lemma item_name_shape [simp]:
  "item_name it \<noteq> []" "\<forall>c \<in> set (item_name it). \<not> is_space c" "length (item_name it) \<le> 13"
  by (cases it; simp add: is_space_def)+

lemma order_request_received:
  "NUL \<notin> set name \<Longrightarrow>
    cstr (overlay (order_request name q) (zeros MAX_BUFFER_SIZE)) = order_request name q"
  using show_int_no_NUL [of "sint q"]
  by (intro cstr_received) (simp add: order_request_def NUL_def NL_def)

lemma item_request_fits [simp]: "length (order_request (item_name it) q) < MAX_BUFFER_SIZE"
  using length_show_int_c_int [of q] item_name_shape(3) [of it]
  by (simp add: order_request_def MAX_BUFFER_SIZE_def del: item_name_shape)

lemma terminated_received:
  "length bytes < n \<Longrightarrow> terminated (overlay bytes (zeros n))"
  by (simp add: terminated_def overlay_def zeros_def)

text \<open>A well-formed order request reaches \<open>handle_order\<close> with its word and number.\<close>

lemma handle_request_order:
  assumes "name \<noteq> []" and "NUL \<notin> set name" and "\<forall>c \<in> set name. \<not> is_space c"
    and "length (order_request name q) < MAX_BUFFER_SIZE"
  shows "\<exists>it. cstr it = name \<and>
    handle_request s c (order_request name q) =
      handle_order s (c\<lparr>buffer := overlay (order_request name q) (zeros MAX_BUFFER_SIZE),
        response := zeros MAX_BUFFER_SIZE\<rparr>) \<and>
    parse_order (overlay (order_request name q) (zeros MAX_BUFFER_SIZE)) = Some (it, q)"
proof -
  note r = order_request_received [OF assms(2), of q]
  obtain it where it: "cstr it = name"
    "parse_order (overlay (order_request name q) (zeros MAX_BUFFER_SIZE)) = Some (it, q)"
    using parse_order_request [OF r assms(1-3)] assms(4) by (auto simp: order_request_def)
  have "terminated (overlay (order_request name q) (zeros MAX_BUFFER_SIZE))"
    by (intro terminated_received assms(4))
  then have "handle_request s c (order_request name q) =
      handle_order s (c\<lparr>buffer := overlay (order_request name q) (zeros MAX_BUFFER_SIZE),
        response := zeros MAX_BUFFER_SIZE\<rparr>)"
    using r by (simp add: handle_request_def_full Let_def strncmp_eq_def order_request_def NUL_def)
  with it show ?thesis by blast
qed

section \<open>The first order\<close>

lemma take_order_shop:
  assumes "cstr (restaurant c) = shop_name sh"
  shows "ord (take_order c) = update_item_count (ord c) (ord_item c) (quantity c)"
    and "map cstr (outbox (take_order c)) = map cstr (outbox c) @
      order_text (update_item_count (ord c) (ord_item c) (quantity c)) sh"
    and "requests (take_order c) = requests c @ [(ord_item c, quantity c)]"
  using sendtoclient_shop [OF assms, of "update_item_count (ord c) (ord_item c) (quantity c)"]
  by (auto simp: take_order_def Let_def)

lemma run_two: "st s e = Some s1 \<Longrightarrow> run_events st s (e # es) = run_events st s1 es"
  by simp

text \<open>
  The request and the copy of the restaurant name, with nothing in between.
\<close>

lemma first_order_run:
  assumes "t < length (clients s)" and "pc (clients s ! t) = Reading" and "firstorder (clients s ! t)"
    and "length (static_restaurant s) = MAX_BUFFER_SIZE"
    and "length (restaurant (clients s ! t)) = MAX_BUFFER_SIZE"
  shows "\<exists>c' r. run_events server_step s [Recv t (order_request (item_name it) q), Run t] =
      Some (put_client (s\<lparr>static_restaurant := r\<rparr>) t c') \<and>
    cstr (restaurant c') = shop_name (item_shop it) \<and> length r = MAX_BUFFER_SIZE \<and>
    distance (ord c') = shop_km (item_shop it) \<and> pc c' = Reading \<and> \<not> firstorder c' \<and>
    booked c' = booked (clients s ! t) \<and>
    (\<forall>it'. count (ord c') it' = count (ord (clients s ! t)) it' + (if it' = it then q else 0)) \<and>
    map cstr (outbox c') = map cstr (outbox (clients s ! t)) @ order_text (ord c') (item_shop it)"
proof -
  let ?c = "clients s ! t" and ?req = "order_request (item_name it) q"
  let ?b = "?c\<lparr>buffer := overlay ?req (zeros MAX_BUFFER_SIZE), response := zeros MAX_BUFFER_SIZE\<rparr>"
  obtain nm where nm: "cstr nm = item_name it"
    "handle_request s ?c ?req = handle_order s ?b" "parse_order (buffer ?b) = Some (nm, q)"
    using handle_request_order [of "item_name it" q s ?c] by auto
  have it: "item_of nm = Some it" using nm(1) by (simp add: item_of_Some)
  obtain r where r: "determine_restaurant (ord ?c) (static_restaurant s) nm =
      Some (ord ?c\<lparr>distance := shop_km (item_shop it)\<rparr>, r)"
    "cstr r = shop_name (item_shop it)" "length r = MAX_BUFFER_SIZE"
    using determine_restaurant_item [OF it assms(4)] by blast
  let ?m = "?b\<lparr>ord_item := nm, quantity := q, ord := ord ?c\<lparr>distance := shop_km (item_shop it)\<rparr>,
    pc := Copying\<rparr>"
  let ?s1 = "put_client (s\<lparr>static_restaurant := r\<rparr>) t ?m"
  have ho: "handle_order s ?b = (s\<lparr>static_restaurant := r\<rparr>, ?m)"
    using nm(3) r(1) assms(3) by (simp add: handle_order_def)
  have one: "server_step s (Recv t ?req) = Some ?s1"
    using assms(1,2) nm(2) ho less_imp_le [OF item_request_fits [of it q]]
    by (simp add: recv_step_def)
  obtain r' where r': "strcpy (restaurant ?m) r = Some r'" "cstr r' = shop_name (item_shop it)"
    using strcpy_fits [of r "restaurant ?m"] r(2,3) assms(5) length_cstr_less [of r]
      strcpy_Some(1) [of "restaurant ?m" r]
    by (cases it) (fastforce simp: MAX_BUFFER_SIZE_def)+
  let ?k = "?m\<lparr>restaurant := r', firstorder := False\<rparr>"
  have two: "server_step ?s1 (Run t) =
      Some (put_client (s\<lparr>static_restaurant := r\<rparr>) t (take_order ?k))"
    using assms(1) r'(1) by (simp add: thread_step_def put_client_def)
  have "cstr (restaurant ?k) = shop_name (item_shop it)" using r'(2) by simp
  note k = take_order_shop [OF this]
  have "count (ord (take_order ?k)) it' = count (ord ?c) it' + (if it' = it then q else 0)" for it'
    using it by (cases it') (auto simp: k(1) count_update_item_count fields_update_item_count)
  moreover have "distance (ord (take_order ?k)) = shop_km (item_shop it)"
    by (simp add: k(1))
  ultimately show ?thesis
    using one two r(3) r'(2) k take_order_frame [of ?k] take_order_pc [of ?k]
    by (intro exI [of _ "take_order ?k"] exI [of _ r]) simp
qed

section \<open>Confirm, book, deliver\<close>

lemma cstr_respond:
  assumes "NUL \<notin> set txt" and "length txt < MAX_BUFFER_SIZE"
  shows "cstr (snprintf_at b 0 MAX_BUFFER_SIZE txt) = txt"
  using assms by (simp add: snprintf_at_def cstr_overlay MAX_BUFFER_SIZE_def)

lemma respond_outbox:
  assumes "NUL \<notin> set txt" and "length txt < MAX_BUFFER_SIZE"
  shows "map cstr (outbox (respond c txt)) = map cstr (outbox c) @ [txt]"
  using cstr_respond [OF assms] by (simp add: respond_def Let_def)

lemma messages_fit [simp]:
  "NUL \<notin> set msg_wait" "length msg_wait < MAX_BUFFER_SIZE"
  "NUL \<notin> set (msg_arrived p)" "length (msg_arrived p) < MAX_BUFFER_SIZE"
  using show_int_no_NUL [of "sint p"] length_show_int_c_int [of p]
  by (simp_all add: msg_wait_def msg_arrived_def NL_def NUL_def MAX_BUFFER_SIZE_def)

lemma confirm_request_simps:
  "length confirm_request \<le> MAX_BUFFER_SIZE" "confirm_request \<noteq> []"
  "terminated (overlay confirm_request (zeros MAX_BUFFER_SIZE))"
  "cstr (overlay confirm_request (zeros MAX_BUFFER_SIZE)) = confirm_request"
  by (simp add: confirm_request_def MAX_BUFFER_SIZE_def, simp add: confirm_request_def,
      rule terminated_received, simp add: confirm_request_def MAX_BUFFER_SIZE_def,
      rule cstr_received, simp add: confirm_request_def NUL_def NL_def)

lemma confirm_dispatch:
  assumes "cstr b = confirm_request"
  shows "\<not> strncmp_eq b ''order'' 5" "\<not> strncmp_eq b ''shop list'' 9" "strncmp_eq b ''confirm'' 7"
  using assms by (simp_all add: strncmp_eq_def confirm_request_def NUL_def NL_def)

lemma handle_confirm:
  "\<not> firstorder c \<Longrightarrow> handle_request s c confirm_request =
    (s, c\<lparr>buffer := overlay confirm_request (zeros MAX_BUFFER_SIZE),
      response := zeros MAX_BUFFER_SIZE, deliver := None,
      total_price := compute_price (ord c) (restaurant c), pc := Choosing\<rparr>)"
  using confirm_request_simps(2,3) confirm_dispatch [OF confirm_request_simps(4)]
  by (simp add: handle_request_def_full Let_def)

text \<open>The person the code chooses when nothing happens between the two loads.\<close>

definition first_free :: "server \<Rightarrow> person" where
  "first_free s =
    (if next_available_time s Person1 \<le> next_available_time s Person2 then Person1 else Person2)"

text \<open>
  A thread that runs alone: its steps on the shared state and its own state, without the list of
  clients, which no thread reads.
\<close>

fun solo :: "nat \<Rightarrow> server \<Rightarrow> tid \<Rightarrow> client \<Rightarrow> (server \<times> client) option" where
  "solo 0 s t c = Some (s, c)"
| "solo (Suc n) s t c = (case thread_step s t c of None \<Rightarrow> None | Some (s1, c1) \<Rightarrow> solo n s1 t c1)"

lemma solo_numeral [simp]:
  "solo (numeral k) s t c =
    (case thread_step s t c of None \<Rightarrow> None | Some (s1, c1) \<Rightarrow> solo (pred_numeral k) s1 t c1)"
  by (simp add: numeral_eq_Suc)

lemma solo_add:
  "solo (m + n) s t c = (case solo m s t c of None \<Rightarrow> None | Some (s1, c1) \<Rightarrow> solo n s1 t c1)"
  by (induction m arbitrary: s c) (auto split: option.splits)

lemma lock_clients:
  "lock_person (s\<lparr>clients := cs\<rparr>) t d = map_option (\<lambda>s1. s1\<lparr>clients := cs\<rparr>) (lock_person s t d)"
  "lock_time (s\<lparr>clients := cs\<rparr>) t d = map_option (\<lambda>s1. s1\<lparr>clients := cs\<rparr>) (lock_time s t d)"
  by (simp_all add: lock_person_def lock_time_def mutex_lock_def split: option.splits)

lemma thread_step_clients:
  "thread_step (s\<lparr>clients := cs\<rparr>) t c =
    map_option (\<lambda>(s1, c1). (s1\<lparr>clients := cs\<rparr>, c1)) (thread_step s t c)"
proof (cases "pc c")
  case Copying
  then show ?thesis by (simp add: thread_step_def split: option.split)
qed (simp_all add: thread_step_def lock_clients lock_simps option.map_comp comp_def)

lemma solo_run:
  assumes "t < length (clients s)" and "solo n s t c = Some (s1, c1)"
  shows "run_events server_step (put_client s t c) (replicate n (Run t)) = Some (put_client s1 t c1)"
  using assms
proof (induction n arbitrary: s c)
  case (Suc n)
  from Suc.prems(2) obtain s2 c2 where s2: "thread_step s t c = Some (s2, c2)" "solo n s2 t c2 = Some (s1, c1)"
    by (auto split: option.splits)
  have cl: "clients s2 = clients s" using s2(1) by (intro moves_clients) (auto simp: moves_def)
  have "server_step (put_client s t c) (Run t) = Some (put_client s2 t c2)"
    using Suc.prems(1) s2(1) cl by (simp add: put_client_def thread_step_clients)
  with Suc.IH [of s2 c2] Suc.prems(1) s2(2) cl show ?case by (simp del: server_step.simps)
qed simp

definition book :: "client \<Rightarrow> person \<Rightarrow> client" where
  "book c d = c\<lparr>pc := TimeLocking d, deliver := Some d, booked := True,
    response := snprintf_at (response c) 0 MAX_BUFFER_SIZE msg_wait,
    outbox := outbox c @ [snprintf_at (response c) 0 MAX_BUFFER_SIZE msg_wait]\<rparr>"

lemma solo_book:
  assumes "pc c = Choosing" and "person_mutex s (first_free s) = None"
    and "next_available_time s (first_free s) + km c \<le> 30"
  shows "solo 7 s t c =
    Some (s\<lparr>next_available_time := (next_available_time s)
      (first_free s := next_available_time s (first_free s) + km c)\<rparr>, book c (first_free s))"
proof -
  define d where "d = first_free s"
  have d: "(if next_available_time s Person1 \<le> next_available_time s Person2
      then Person1 else Person2) = d" by (simp add: d_def first_free_def)
  have "solo 2 s t c = Some (s, c\<lparr>pc := Locking d\<rparr>)"
    using assms(1) d by (simp add: thread_step_def)
  moreover have "solo 2 s t (c\<lparr>pc := Locking d\<rparr>) =
      Some (s\<lparr>person_mutex := (person_mutex s)(d := Some t)\<rparr>,
        c\<lparr>deliver := Some d, pc := BookLoading d False\<rparr>)"
    using assms(2,3) by (simp add: thread_step_def lock_person_def km_def d_def)
  moreover have "solo 2 (s\<lparr>person_mutex := (person_mutex s)(d := Some t)\<rparr>) t
        (c\<lparr>deliver := Some d, pc := BookLoading d False\<rparr>) =
      Some (s\<lparr>person_mutex := (person_mutex s)(d := Some t),
          next_available_time := (next_available_time s)(d := next_available_time s d + km c)\<rparr>,
        c\<lparr>deliver := Some d, booked := True, pc := Unlocking d False\<rparr>)"
    by (simp add: thread_step_def km_def)
  moreover have "solo 1 (s\<lparr>person_mutex := (person_mutex s)(d := Some t),
          next_available_time := (next_available_time s)(d := next_available_time s d + km c)\<rparr>) t
        (c\<lparr>deliver := Some d, booked := True, pc := Unlocking d False\<rparr>) =
      Some (s\<lparr>next_available_time := (next_available_time s)(d := next_available_time s d + km c)\<rparr>,
        book c d)"
  proof -
    have "(person_mutex s)(d := None) = person_mutex s" using assms(2) by (auto simp: d_def)
    then show ?thesis
      by (simp add: thread_step_def unlock_person_def book_def respond_def Let_def)
  qed
  moreover have "solo 7 s t c = solo (2 + (2 + (2 + 1))) s t c" by simp
  ultimately show ?thesis by (simp only: solo_add option.case prod.case d_def [symmetric])
qed

text \<open>One turn of the delivery loop, the whole loop, and the delivery from the lock on.\<close>

lemma solo_tick:
  assumes "pc c = Sleeping d" and "loop_i c < km c" and "person_mutex s d = None"
  shows "solo 5 s t c =
    Some (s\<lparr>next_available_time := (next_available_time s)(d := next_available_time s d - 1)\<rparr>,
      c\<lparr>loop_i := loop_i c + 1, pc := Sleeping d\<rparr>)"
proof -
  have "(person_mutex s)(d := None) = person_mutex s" using assms(3) by auto
  then show ?thesis using assms
    by (simp add: thread_step_def lock_person_def unlock_person_def km_def)
qed

lemma solo_loop:
  assumes "pc c = Sleeping d" and "loop_i c + int k = km c" and "person_mutex s d = None"
  shows "solo (k * 5) s t c =
    Some (s\<lparr>next_available_time := (next_available_time s)(d := next_available_time s d - int k)\<rparr>,
      c\<lparr>loop_i := km c, pc := Sleeping d\<rparr>)"
  using assms
proof (induction k arbitrary: s c)
  case 0
  then have "(next_available_time s)(d := next_available_time s d) = next_available_time s"
    "c\<lparr>loop_i := km c, pc := Sleeping d\<rparr> = c" by (auto intro: client.equality)
  then show ?case by simp
next
  case (Suc k)
  let ?f = "next_available_time s" and ?c = "c\<lparr>loop_i := loop_i c + 1, pc := Sleeping d\<rparr>"
  let ?s = "s\<lparr>next_available_time := ?f(d := ?f d - 1)\<rparr>"
  have "solo 5 s t c = Some (?s, ?c)"
    using Suc.prems by (intro solo_tick) simp_all
  moreover have "solo (k * 5) ?s t ?c =
      Some (?s\<lparr>next_available_time := (next_available_time ?s)(d := next_available_time ?s d - int k)\<rparr>,
        ?c\<lparr>loop_i := km ?c, pc := Sleeping d\<rparr>)"
    using Suc.prems by (intro Suc.IH) simp_all
  moreover have "?s\<lparr>next_available_time := (next_available_time ?s)(d := next_available_time ?s d - int k)\<rparr> =
      s\<lparr>next_available_time := ?f(d := ?f d - int (Suc k))\<rparr>"
    by (intro server.equality) (auto simp: fun_eq_iff)
  moreover have "Suc k * 5 = 5 + k * 5" by simp
  moreover have "?c\<lparr>loop_i := km ?c, pc := Sleeping d\<rparr> = c\<lparr>loop_i := km c, pc := Sleeping d\<rparr>" by simp
  ultimately show ?case by (simp only: solo_add option.case prod.case)
qed

definition arrive :: "client \<Rightarrow> client" where
  "arrive c = (let r = snprintf_at (response c) 0 MAX_BUFFER_SIZE (msg_arrived (total_price c))
    in c\<lparr>pc := Closed, loop_i := km c, response := r, outbox := outbox c @ [r]\<rparr>)"

lemma solo_deliver:
  assumes "pc c = TimeLocking d" and "0 \<le> km c" and "time_mutex s d = None"
    and "person_mutex s d = None"
  shows "solo (nat (km c) * 5 + 4) s t c =
    Some (s\<lparr>next_available_time := (next_available_time s)(d := next_available_time s d - km c)\<rparr>,
      arrive c)"
proof -
  let ?s1 = "s\<lparr>time_mutex := (time_mutex s)(d := Some t)\<rparr>"
  let ?c1 = "c\<lparr>loop_i := 0, pc := Sleeping d\<rparr>"
  let ?n = "(next_available_time s)(d := next_available_time s d - km c)"
  have "solo 1 s t c = Some (?s1, ?c1)"
    using assms(1,3) by (simp add: thread_step_def lock_time_def)
  moreover have "solo (nat (km c) * 5) ?s1 t ?c1 =
      Some (?s1\<lparr>next_available_time := ?n\<rparr>, c\<lparr>loop_i := km c, pc := Sleeping d\<rparr>)"
    using solo_loop [of ?c1 d "nat (km c)" ?s1] assms(2,4) by simp
  moreover have "solo 3 (?s1\<lparr>next_available_time := ?n\<rparr>) t (c\<lparr>loop_i := km c, pc := Sleeping d\<rparr>) =
      Some (s\<lparr>next_available_time := ?n\<rparr>, arrive c)"
  proof -
    have "(time_mutex s)(d := None) = time_mutex s" using assms(3) by auto
    then show ?thesis
      by (simp add: thread_step_def unlock_time_def arrive_def respond_def Let_def km_def)
  qed
  moreover have "nat (km c) * 5 + 4 = 1 + (nat (km c) * 5 + 3)" by simp
  ultimately show ?thesis by (simp only: solo_add option.case prod.case)
qed

section \<open>A whole session\<close>

definition session_events :: "tid \<Rightarrow> item \<Rightarrow> c_int \<Rightarrow> event list" where
  "session_events t it q =
    [Recv t (order_request (item_name it) q), Run t, Recv t confirm_request] @
    replicate 7 (Run t) @ replicate (nat (sint (shop_km (item_shop it))) * 5 + 4) (Run t)"

lemma confirm_step:
  assumes "t < length (clients s)" and "pc c = Reading" and "\<not> firstorder c"
  shows "server_step (put_client s t c) (Recv t confirm_request) =
    Some (put_client s t (c\<lparr>buffer := overlay confirm_request (zeros MAX_BUFFER_SIZE),
      response := zeros MAX_BUFFER_SIZE, deliver := None,
      total_price := compute_price (ord c) (restaurant c), pc := Choosing\<rparr>))"
  using assms confirm_request_simps(1)
  by (simp add: recv_step_def handle_confirm put_client_def)

lemma book_simps [simp]:
  "pc (book c d) = TimeLocking d" "km (book c d) = km c" "ord (book c d) = ord c"
  "total_price (book c d) = total_price c"
  "map cstr (outbox (book c d)) = map cstr (outbox c) @ [msg_wait]"
  by (simp_all add: book_def cstr_respond km_def)

lemma arrive_simps [simp]:
  "pc (arrive c) = Closed"
  "map cstr (outbox (arrive c)) = map cstr (outbox c) @ [msg_arrived (total_price c)]"
  by (simp_all add: arrive_def Let_def cstr_respond)

text \<open>Confirming and being delivered to, alone: the delivery person's time is restored.\<close>

lemma confirm_run:
  assumes "t < length (clients s)" and "pc c = Reading" and "\<not> firstorder c" and "0 \<le> km c"
    and "person_mutex s (first_free s) = None" and "time_mutex s (first_free s) = None"
    and "next_available_time s (first_free s) + km c \<le> 30"
  shows "\<exists>c'. run_events server_step (put_client s t c)
      (Recv t confirm_request # replicate 7 (Run t) @ replicate (nat (km c) * 5 + 4) (Run t)) =
      Some (put_client s t c') \<and> pc c' = Closed \<and>
    map cstr (outbox c') = map cstr (outbox c) @
      [msg_wait, msg_arrived (compute_price (ord c) (restaurant c))]"
proof -
  let ?d = "first_free s" and ?f = "next_available_time s"
  define b where "b = c\<lparr>buffer := overlay confirm_request (zeros MAX_BUFFER_SIZE),
      response := zeros MAX_BUFFER_SIZE, deliver := None,
      total_price := compute_price (ord c) (restaurant c), pc := Choosing\<rparr>"
  have b: "pc b = Choosing" "km b = km c" "outbox b = outbox c"
    "total_price b = compute_price (ord c) (restaurant c)" by (simp_all add: b_def)
  let ?s1 = "s\<lparr>next_available_time := ?f(?d := ?f ?d + km c)\<rparr>"
  have one: "server_step (put_client s t c) (Recv t confirm_request) = Some (put_client s t b)"
    unfolding b_def by (rule confirm_step [OF assms(1-3)])
  have two: "solo 7 s t b = Some (?s1, book b ?d)"
    using solo_book [of b s t] assms(5,7) b(1,2) by (simp only: b)
  have "solo (nat (km c) * 5 + 4) ?s1 t (book b ?d) =
      Some (?s1\<lparr>next_available_time := (next_available_time ?s1)
        (?d := next_available_time ?s1 ?d - km c)\<rparr>, arrive (book b ?d))"
    using solo_deliver [of "book b ?d" ?d ?s1 t] assms(4-6) b(2) by simp
  also have "?s1\<lparr>next_available_time := (next_available_time ?s1)
        (?d := next_available_time ?s1 ?d - km c)\<rparr> = s"
    by (intro server.equality) (auto simp: fun_eq_iff)
  finally have three: "solo (nat (km c) * 5 + 4) ?s1 t (book b ?d) = Some (s, arrive (book b ?d))" .
  have "run_events server_step (put_client s t c)
      (Recv t confirm_request # replicate 7 (Run t) @ replicate (nat (km c) * 5 + 4) (Run t)) =
      Some (put_client s t (arrive (book b ?d)))"
    using one solo_run [OF assms(1) two] solo_run [of t ?s1, OF _ three] assms(1)
    by (simp add: run_events_append del: server_step.simps replicate.simps)
  then show ?thesis using b by (intro exI [of _ "arrive (book b ?d)"]) simp
qed

lemma shop_km_bounds [simp]: "0 \<le> sint (shop_km sh)"
  by (cases sh) simp_all

lemma price_of_first_order:
  assumes "cstr r = shop_name (item_shop it)"
    and "\<forall>it'. count o' it' = (if it' = it then q else 0)"
  shows "compute_price o' r = item_price it * q"
  using assms(2) by (cases it) (simp_all add: compute_price_shop [OF assms(1)])

lemma uncontended_run:
  assumes "t < length (clients s)" and "clients s ! t = new_client"
    and "length (static_restaurant s) = MAX_BUFFER_SIZE"
    and "\<forall>d. person_mutex s d = None" and "\<forall>d. time_mutex s d = None"
    and "next_available_time s (first_free s) + sint (shop_km (item_shop it)) \<le> 30"
  shows "\<exists>c' r. run_events server_step s (session_events t it q) =
      Some (put_client (s\<lparr>static_restaurant := r\<rparr>) t c') \<and> pc c' = Closed \<and>
    map cstr (outbox c') =
      (if 0 < sint q then [item_text it q @ NL] else []) @
      [msg_wait, msg_arrived (item_price it * q)]"
proof -
  obtain c r where c: "run_events server_step s [Recv t (order_request (item_name it) q), Run t] =
      Some (put_client (s\<lparr>static_restaurant := r\<rparr>) t c)"
    "cstr (restaurant c) = shop_name (item_shop it)" "distance (ord c) = shop_km (item_shop it)"
    "pc c = Reading" "\<not> firstorder c"
    "\<forall>it'. count (ord c) it' = (if it' = it then q else 0)"
    "map cstr (outbox c) = order_text (ord c) (item_shop it)"
    using first_order_run [of t s it q] assms(1-3)
    by (auto simp: new_client_def)
  let ?s = "s\<lparr>static_restaurant := r\<rparr>"
  have km: "km c = sint (shop_km (item_shop it))" by (simp add: km_def c(3))
  have ff: "first_free ?s = first_free s" by (simp add: first_free_def)
  obtain c' where c': "run_events server_step (put_client ?s t c)
      (Recv t confirm_request # replicate 7 (Run t) @ replicate (nat (km c) * 5 + 4) (Run t)) =
      Some (put_client ?s t c')" "pc c' = Closed"
    "map cstr (outbox c') = map cstr (outbox c) @
      [msg_wait, msg_arrived (compute_price (ord c) (restaurant c))]"
    using confirm_run [of t ?s c] assms c(4,5) km ff by auto
  have "order_text (ord c) (item_shop it) = (if 0 < sint q then [item_text it q @ NL] else [])"
    using c(6) [rule_format, of Cookie] c(6) [rule_format, of Cake] c(6) [rule_format, of Tea]
      c(6) [rule_format, of Boba] c(6) [rule_format, of FriedRice] c(6) [rule_format, of EggDropSoup]
    by (cases it) (auto simp: order_text_def item_text_def Let_def)
  moreover have "session_events t it q = [Recv t (order_request (item_name it) q), Run t] @
      (Recv t confirm_request # replicate 7 (Run t) @ replicate (nat (km c) * 5 + 4) (Run t))"
    by (simp add: session_events_def km)
  then have "run_events server_step s (session_events t it q) = Some (put_client ?s t c')"
    by (simp only: run_events_append c(1) c'(1) option.case)
  ultimately show ?thesis
    using c(7) c'(2,3) price_of_first_order [OF c(2,6)]
    by (intro exI [of _ c'] exI [of _ r]) simp
qed

end
