(* ===== verification/Hw3_Defects.thy ===== *)
theory Hw3_Defects
  imports Hw3_Session
begin

text \<open>
  Runs of the server that its locking does not exclude: two first orders that swap restaurants
  through the static buffer, the second unlock after a Yes that lets two threads into one
  section, and the lock of \<open>mutex_time1\<close> that is never released.
\<close>

section \<open>Two first orders\<close>

text \<open>
  The first half of a first order: the request is parsed and \<open>determine_restaurant\<close> has returned,
  the name is in the static buffer only.
\<close>

definition determined :: "client \<Rightarrow> item \<Rightarrow> c_int \<Rightarrow> client \<Rightarrow> bool" where
  "determined c it q c' \<longleftrightarrow> pc c' = Copying \<and> outbox c' = outbox c \<and> cstr (ord_item c') = item_name it \<and> quantity c' = q \<and>
    ord c' = (ord c)\<lparr>distance := shop_km (item_shop it)\<rparr> \<and> restaurant c' = restaurant c \<and>
    requests c' = requests c"

lemma first_order_half:
  assumes "t < length (clients s)" and "pc (clients s ! t) = Reading" and "firstorder (clients s ! t)"
    and "length (static_restaurant s) = MAX_BUFFER_SIZE"
  shows "\<exists>c' r. server_step s (Recv t (order_request (item_name it) q)) =
      Some (put_client (s\<lparr>static_restaurant := r\<rparr>) t c') \<and>
    determined (clients s ! t) it q c' \<and> cstr r = shop_name (item_shop it) \<and>
    length r = MAX_BUFFER_SIZE"
proof -
  let ?c = "clients s ! t" and ?req = "order_request (item_name it) q"
  let ?b = "?c\<lparr>buffer := overlay ?req (zeros MAX_BUFFER_SIZE), response := zeros MAX_BUFFER_SIZE\<rparr>"
  obtain nm where nm: "cstr nm = item_name it"
    "handle_request s ?c ?req = handle_order s ?b" "parse_order (buffer ?b) = Some (nm, q)"
    using handle_request_order [of "item_name it" q s ?c] by auto
  have it: "item_of nm = Some it" using nm(1) by (simp add: item_of_Some)
  obtain r where r: "determine_restaurant (ord ?c) (static_restaurant s) nm =
      Some (ord ?c\<lparr>distance := shop_km (item_shop it)\<rparr>, r)"
    "cstr r = shop_name (item_shop it)" "length r = MAX_BUFFER_SIZE"
    using determine_restaurant_item [OF it assms(4)] by blast
  let ?m = "?b\<lparr>ord_item := nm, quantity := q, ord := ord ?c\<lparr>distance := shop_km (item_shop it)\<rparr>,
    pc := Copying\<rparr>"
  have "handle_order s ?b = (s\<lparr>static_restaurant := r\<rparr>, ?m)"
    using nm(3) r(1) assms(3) by (simp add: handle_order_def)
  then have "server_step s (Recv t ?req) = Some (put_client (s\<lparr>static_restaurant := r\<rparr>) t ?m)"
    using assms(1,2) nm(2) less_imp_le [OF item_request_fits [of it q]]
    by (simp add: recv_step_def)
  then show ?thesis using nm(1) r(2,3)
    by (intro exI [of _ ?m] exI [of _ r]) (simp add: determined_def)
qed

text \<open>The second half: whatever name the static buffer holds now becomes the restaurant.\<close>

lemma second_half:
  assumes "t < length (clients s)" and "clients s ! t = c" and "pc c = Copying"
    and "cstr (static_restaurant s) = shop_name sh" and "length (restaurant c) = MAX_BUFFER_SIZE"
  shows "\<exists>c'. server_step s (Run t) = Some (put_client s t c') \<and>
    cstr (restaurant c') = shop_name sh \<and> pc c' = Reading \<and> \<not> firstorder c' \<and>
    ord c' = update_item_count (ord c) (ord_item c) (quantity c) \<and>
    map cstr (outbox c') = map cstr (outbox c) @ order_text (ord c') sh"
proof -
  have "length (cstr (static_restaurant s)) < length (restaurant c)"
    using assms(4,5) by (cases sh) (simp_all add: MAX_BUFFER_SIZE_def)
  then obtain r where r: "strcpy (restaurant c) (static_restaurant s) = Some r" using strcpy_fits by blast
  let ?k = "c\<lparr>restaurant := r, firstorder := False\<rparr>"
  have sh: "cstr (restaurant ?k) = shop_name sh" using strcpy_Some(1) [OF r] assms(4) by simp
  have "server_step s (Run t) = Some (put_client s t (take_order ?k))"
    using assms(1-3) r by (simp add: thread_step_def)
  then show ?thesis
    using take_order_shop [OF sh] take_order_frame [of ?k] take_order_pc [of ?k] sh
    by (intro exI [of _ "take_order ?k"]) simp
qed

lemma compute_price_other_shop:
  assumes "cstr r = shop_name sh" and "item_shop it \<noteq> sh" and "\<forall>it'. it' \<noteq> it \<longrightarrow> count o' it' = 0"
  shows "compute_price o' r = 0"
  using assms(2,3) by (cases sh; cases it) (simp_all add: compute_price_shop [OF assms(1)] item_all)

lemma swapped_restaurant:
  assumes "t < length (clients s)" and "u < length (clients s)" and "t \<noteq> u"
    and "clients s ! t = new_client" and "clients s ! u = new_client"
    and "length (static_restaurant s) = MAX_BUFFER_SIZE" and "item_shop a \<noteq> item_shop b"
  shows "\<exists>s'. run_events server_step s
      [Recv t (order_request (item_name a) p), Recv u (order_request (item_name b) q), Run t] =
      Some s' \<and>
    cstr (restaurant (clients s' ! t)) = shop_name (item_shop b) \<and>
    distance (ord (clients s' ! t)) = shop_km (item_shop a) \<and>
    count (ord (clients s' ! t)) a = p \<and>
    compute_price (ord (clients s' ! t)) (restaurant (clients s' ! t)) = 0 \<and>
    outbox (clients s' ! t) = []"
proof -
  have new: "pc new_client = Reading" "firstorder new_client" "ord new_client = empty_order"
    "length (restaurant new_client) = MAX_BUFFER_SIZE" "outbox new_client = []"
    by (simp_all add: new_client_def)
  obtain c1 r1 where one: "server_step s (Recv t (order_request (item_name a) p)) =
      Some (put_client (s\<lparr>static_restaurant := r1\<rparr>) t c1)"
    "determined new_client a p c1" "length r1 = MAX_BUFFER_SIZE"
    using first_order_half [of t s a p] assms new by auto
  let ?s1 = "put_client (s\<lparr>static_restaurant := r1\<rparr>) t c1"
  obtain c2 r2 where two: "server_step ?s1 (Recv u (order_request (item_name b) q)) =
      Some (put_client (?s1\<lparr>static_restaurant := r2\<rparr>) u c2)" "cstr r2 = shop_name (item_shop b)"
    using first_order_half [of u ?s1 b q] assms new one(3) by auto
  let ?s2 = "put_client (?s1\<lparr>static_restaurant := r2\<rparr>) u c2"
  have at: "t < length (clients ?s2)" "clients ?s2 ! t = c1" using assms(1-3) by simp_all
  have c1: "pc c1 = Copying" "length (restaurant c1) = MAX_BUFFER_SIZE"
    "ord c1 = empty_order\<lparr>distance := shop_km (item_shop a)\<rparr>" "item_of (ord_item c1) = Some a"
    "quantity c1 = p"
    using one(2) new by (simp_all add: determined_def item_of_Some)
  obtain c3 where three: "server_step ?s2 (Run t) = Some (put_client ?s2 t c3)"
    "cstr (restaurant c3) = shop_name (item_shop b)"
    "ord c3 = update_item_count (ord c1) (ord_item c1) (quantity c1)"
    "map cstr (outbox c3) = map cstr (outbox c1) @ order_text (ord c3) (item_shop b)"
    using second_half [OF at c1(1) _ c1(2)] two(2) by auto
  have cnt: "count (ord c3) it = (if it = a then p else 0)" for it
    using c1(3-5) count_empty_order [of it]
    by (cases it) (auto simp: three(3) count_update_item_count fields_update_item_count)
  have "compute_price (ord c3) (restaurant c3) = 0"
    using compute_price_other_shop [OF three(2) assms(7)] cnt by simp
  moreover have "order_text (ord c3) (item_shop b) = []"
    using cnt [of Cookie] cnt [of Cake] cnt [of Tea] cnt [of Boba] cnt [of FriedRice]
      cnt [of EggDropSoup] assms(7)
    by (cases "item_shop b"; cases a) (simp_all add: order_text_def)
  moreover have "outbox c1 = []" using one(2) new by (simp add: determined_def)
  ultimately show ?thesis
    using one(1) two(1) three c1(3) cnt [of a] assms(1)
    by (intro exI [of _ "put_client ?s2 t c3"]) (simp del: server_step.simps)
qed

section \<open>Clients that come one after the other\<close>

text \<open>A new client orders one item and confirms; it stands at the choice of a person.\<close>

definition join_events :: "tid \<Rightarrow> item \<Rightarrow> event list" where
  "join_events t it = [Accept, Recv t (order_request (item_name it) 1), Run t, Recv t confirm_request]"

definition at_choice :: "item \<Rightarrow> client \<Rightarrow> bool" where
  "at_choice it c \<longleftrightarrow> pc c = Choosing \<and> km c = sint (shop_km (item_shop it)) \<and> \<not> booked c"

lemma join_run:
  assumes "length (clients s) = t" and "length (static_restaurant s) = MAX_BUFFER_SIZE"
  shows "\<exists>c r. run_events server_step s (join_events t it) =
      Some (s\<lparr>static_restaurant := r, clients := clients s @ [c]\<rparr>) \<and>
    at_choice it c \<and> length r = MAX_BUFFER_SIZE"
proof -
  let ?s = "s\<lparr>clients := clients s @ [new_client]\<rparr>"
  have at: "t < length (clients ?s)" "clients ?s ! t = new_client" using assms(1) by auto
  obtain c r where c: "run_events server_step ?s [Recv t (order_request (item_name it) 1), Run t] =
      Some (put_client (?s\<lparr>static_restaurant := r\<rparr>) t c)" "length r = MAX_BUFFER_SIZE"
    "distance (ord c) = shop_km (item_shop it)" "pc c = Reading" "\<not> firstorder c" "\<not> booked c"
    using first_order_run [of t ?s it 1] at assms(2) by (auto simp: new_client_def)
  let ?b = "c\<lparr>buffer := overlay confirm_request (zeros MAX_BUFFER_SIZE),
      response := zeros MAX_BUFFER_SIZE, deliver := None,
      total_price := compute_price (ord c) (restaurant c), pc := Choosing\<rparr>"
  have "server_step (put_client (?s\<lparr>static_restaurant := r\<rparr>) t c) (Recv t confirm_request) =
      Some (put_client (?s\<lparr>static_restaurant := r\<rparr>) t ?b)"
    using confirm_step [of t "?s\<lparr>static_restaurant := r\<rparr>" c] at(1) c(4,5) by simp
  moreover have "join_events t it =
      [Accept] @ [Recv t (order_request (item_name it) 1), Run t] @ [Recv t confirm_request]"
    by (simp add: join_events_def)
  ultimately have "run_events server_step s (join_events t it) =
      Some (put_client (?s\<lparr>static_restaurant := r\<rparr>) t ?b)"
    using run_events.simps [where st = server_step] c(1)
    by (simp only: run_events_append option.case server_step.simps(1))
  moreover have "put_client (?s\<lparr>static_restaurant := r\<rparr>) t ?b =
      s\<lparr>static_restaurant := r, clients := clients s @ [?b]\<rparr>"
    using assms(1) by (simp add: put_client_def list_update_append)
  ultimately show ?thesis using c(2,3,6)
    by (intro exI [of _ ?b] exI [of _ r]) (simp add: at_choice_def km_def)
qed

text \<open>Some of its steps alone, at the end of the list.\<close>

lemma solo_run_last:
  assumes "length (clients s) = t" and "solo n (s\<lparr>clients := clients s @ [c]\<rparr>) t c = Some (s1, c1)"
  shows "run_events server_step (s\<lparr>clients := clients s @ [c]\<rparr>) (replicate n (Run t)) =
    Some (put_client s1 t c1)"
proof -
  have "put_client (s\<lparr>clients := clients s @ [c]\<rparr>) t c = s\<lparr>clients := clients s @ [c]\<rparr>"
    using assms(1) by (simp add: put_client_def list_update_append)
  with solo_run [OF _ assms(2)] assms(1) show ?thesis by simp
qed

definition booking_events :: "tid \<Rightarrow> item \<Rightarrow> event list" where
  "booking_events t it = join_events t it @ replicate 7 (Run t)"

text \<open>What a queue of booked clients looks like: times, free locks, the clients waiting.\<close>

definition queued :: "server \<Rightarrow> int \<Rightarrow> int \<Rightarrow> (person \<times> int) list \<Rightarrow> bool" where
  "queued s n1 n2 ps \<longleftrightarrow>
    length (static_restaurant s) = MAX_BUFFER_SIZE \<and>
    next_available_time s = (\<lambda>d. case d of Person1 \<Rightarrow> n1 | Person2 \<Rightarrow> n2) \<and>
    person_mutex s = (\<lambda>_. None) \<and> time_mutex s = (\<lambda>_. None) \<and> \<not> misuse s \<and>
    map (\<lambda>c. (pc c, km c)) (clients s) = map (\<lambda>(d, k). (TimeLocking d, k)) ps"

lemma queued_clients:
  assumes "queued s n1 n2 ps"
  shows "length (clients s) = length ps"
    and "i < length ps \<Longrightarrow> pc (clients s ! i) = TimeLocking (fst (ps ! i)) \<and>
      km (clients s ! i) = snd (ps ! i)"
proof -
  from assms have m: "map (\<lambda>c. (pc c, km c)) (clients s) = map (\<lambda>(d, k). (TimeLocking d, k)) ps"
    by (simp add: queued_def)
  then show len: "length (clients s) = length ps" by (metis length_map)
  assume "i < length ps"
  then show "pc (clients s ! i) = TimeLocking (fst (ps ! i)) \<and> km (clients s ! i) = snd (ps ! i)"
    using arg_cong [where f = "\<lambda>xs. xs ! i", OF m] len by (simp add: case_prod_unfold)
qed

lemma booking_run:
  assumes "queued s n1 n2 ps" and "t = length ps"
    and "k = sint (shop_km (item_shop it))"
    and "d = (if n1 \<le> n2 then Person1 else Person2)"
    and "m1 = (if n1 \<le> n2 then n1 + k else n1)" and "m2 = (if n1 \<le> n2 then n2 else n2 + k)"
    and "m1 \<le> 30" and "m2 \<le> 30"
  shows "\<exists>s'. run_events server_step s (booking_events t it) = Some s' \<and>
    queued s' m1 m2 (ps @ [(d, k)])"
proof -
  have len: "length (clients s) = t"
    using queued_clients(1) [OF assms(1)] assms(2) by simp
  obtain c r where c: "run_events server_step s (join_events t it) =
      Some (s\<lparr>static_restaurant := r, clients := clients s @ [c]\<rparr>)"
    "at_choice it c" "length r = MAX_BUFFER_SIZE"
    using join_run [OF len, of it] assms(1) unfolding queued_def by blast
  let ?s = "s\<lparr>static_restaurant := r, clients := clients s @ [c]\<rparr>"
  have ff: "first_free ?s = d" using assms(1,4) by (auto simp: queued_def first_free_def)
  let ?f = "next_available_time s"
  have "?f d + k \<le> 30" using assms by (auto simp: queued_def)
  then have "solo 7 ?s t c = Some (?s\<lparr>next_available_time := ?f(d := ?f d + k)\<rparr>, book c d)"
    using solo_book [of c ?s t] c(2) assms(1,3) ff by (simp add: at_choice_def queued_def del: solo_numeral)
  then have "run_events server_step ?s (replicate 7 (Run t)) =
      Some (put_client (?s\<lparr>next_available_time := ?f(d := ?f d + k)\<rparr>) t (book c d))"
    using solo_run_last [of "s\<lparr>static_restaurant := r\<rparr>" t 7 c] len by simp
  moreover have "queued (put_client (?s\<lparr>next_available_time := ?f(d := ?f d + k)\<rparr>) t (book c d))
      m1 m2 (ps @ [(d, k)])"
    using assms c(2,3) len
    by (auto simp: queued_def at_choice_def list_update_append fun_eq_iff split: person.splits)
  ultimately show ?thesis
    using c(1) by (simp add: booking_events_def run_events_append del: replicate.simps)
qed

lemma queued_start: "queued server_start 0 0 []"
  by (simp add: queued_def server_start_def mutex_free_def fun_eq_iff split: person.splits)

lemma booking_reachable:
  assumes "\<exists>s. reachable server_start server_step s \<and> queued s n1 n2 ps"
    and "k = sint (shop_km (item_shop it))"
    and "d = (if n1 \<le> n2 then Person1 else Person2)"
    and "m1 = (if n1 \<le> n2 then n1 + k else n1)" and "m2 = (if n1 \<le> n2 then n2 else n2 + k)"
    and "m1 \<le> 30" and "m2 \<le> 30" and "qs = ps @ [(d, k)]"
  shows "\<exists>s. reachable server_start server_step s \<and> queued s m1 m2 qs"
proof -
  obtain s where s: "reachable server_start server_step s" "queued s n1 n2 ps" using assms(1) by blast
  obtain s' where "run_events server_step s (booking_events (length ps) it) = Some s'" "queued s' m1 m2 qs"
    using booking_run [OF s(2) refl assms(2-7)] assms(8) by blast
  with reachable_run [OF s(1)] show ?thesis by blast
qed

text \<open>Six orders from the diner keep both delivery persons busy for 24 seconds.\<close>

lemma six_queued:
  "\<exists>s. reachable server_start server_step s \<and> queued s 24 24
    [(Person1, 8), (Person2, 8), (Person1, 8), (Person2, 8), (Person1, 8), (Person2, 8)]"
proof -
  have "\<exists>s. reachable server_start server_step s \<and> queued s 0 0 []"
    by (intro exI [of _ server_start] conjI reachable.start queued_start)
  then have "\<exists>s. reachable server_start server_step s \<and> queued s 8 0 [(Person1, 8)]"
    by (rule booking_reachable [where it = FriedRice]) simp_all
  then have "\<exists>s. reachable server_start server_step s \<and> queued s 8 8 [(Person1, 8), (Person2, 8)]"
    by (rule booking_reachable [where it = FriedRice]) simp_all
  then have "\<exists>s. reachable server_start server_step s \<and>
      queued s 16 8 [(Person1, 8), (Person2, 8), (Person1, 8)]"
    by (rule booking_reachable [where it = FriedRice]) simp_all
  then have "\<exists>s. reachable server_start server_step s \<and>
      queued s 16 16 [(Person1, 8), (Person2, 8), (Person1, 8), (Person2, 8)]"
    by (rule booking_reachable [where it = FriedRice]) simp_all
  then have "\<exists>s. reachable server_start server_step s \<and>
      queued s 24 16 [(Person1, 8), (Person2, 8), (Person1, 8), (Person2, 8), (Person1, 8)]"
    by (rule booking_reachable [where it = FriedRice]) simp_all
  then show ?thesis
    by (rule booking_reachable [where it = FriedRice]) simp_all
qed

section \<open>The prompt and a Yes\<close>

definition yes_answer :: "char list" where "yes_answer = ''Yes'' @ NL"

definition prompt :: "client \<Rightarrow> person \<Rightarrow> client" where
  "prompt c d = (respond (c\<lparr>deliver := Some d\<rparr>) msg_long_time)\<lparr>pc := Prompted d\<rparr>"

lemma prompt_simps [simp]:
  "pc (prompt c d) = Prompted d" "km (prompt c d) = km c"
  by (simp_all add: prompt_def)

lemma solo_prompt:
  assumes "pc c = Choosing" and "d = first_free s" and "person_mutex s d = None"
    and "next_available_time s d + km c > 30"
  shows "solo 4 s t c = Some (s\<lparr>person_mutex := (person_mutex s)(d := Some t)\<rparr>, prompt c d)"
proof -
  have d: "(if next_available_time s Person1 \<le> next_available_time s Person2
      then Person1 else Person2) = d" by (simp add: assms(2) first_free_def)
  have "solo 2 s t c = Some (s, c\<lparr>pc := Locking d\<rparr>)"
    using assms(1) d by (simp add: thread_step_def)
  moreover have "solo 2 s t (c\<lparr>pc := Locking d\<rparr>) =
      Some (s\<lparr>person_mutex := (person_mutex s)(d := Some t)\<rparr>, prompt c d)"
    using assms(3,4) by (simp add: thread_step_def lock_person_def km_def prompt_def respond_def Let_def)
  moreover have "solo 4 s t c = solo (2 + 2) s t c" by simp
  ultimately show ?thesis by (simp only: solo_add option.case prod.case)
qed

lemma handle_yes:
  "handle_answer c d yes_answer =
    c\<lparr>buffer := overlay yes_answer (buffer c), pc := BookLoading d True\<rparr>"
  by (simp add: handle_answer_def Let_def strncmp_eq_def overlay_def yes_answer_def NUL_def NL_def)

lemma length_yes [simp]: "length yes_answer \<le> MAX_BUFFER_SIZE"
  by (simp add: yes_answer_def NL_def MAX_BUFFER_SIZE_def)

lemma yes_step:
  assumes "t < length (clients s)" and "pc c = Prompted d"
  shows "server_step (put_client s t c) (Recv t yes_answer) =
    Some (put_client s t (c\<lparr>buffer := overlay yes_answer (buffer c), pc := BookLoading d True\<rparr>))"
  using assms by (simp add: recv_step_def handle_yes put_client_def)

text \<open>
  After the Yes for the second person: booked, the person's mutex unlocked twice, and
  \<open>mutex_time1\<close> locked.
\<close>

definition yes_booked :: "client \<Rightarrow> client" where
  "yes_booked c = (respond (c\<lparr>booked := True\<rparr>) msg_wait)\<lparr>pc := TimeLocking Person2\<rparr>"

lemma solo_yes_second:
  assumes "pc c = BookLoading Person2 True" and "person_mutex s Person2 = Some t"
    and "time_mutex s Person1 = None"
  shows "solo 5 s t c =
    Some (s\<lparr>next_available_time := (next_available_time s)(Person2 := next_available_time s Person2 + km c),
        person_mutex := (person_mutex s)(Person2 := None),
        time_mutex := (time_mutex s)(Person1 := Some t), misuse := True\<rparr>, yes_booked c)"
  using assms
  by (simp add: thread_step_def unlock_person_def lock_time_def km_def yes_booked_def respond_def Let_def)

lemma leak_run:
  assumes "queued s n1 n2 ps" and "t = length ps" and "k = sint (shop_km (item_shop it))"
    and "n2 < n1" and "30 < n2 + k"
  shows "\<exists>es s'. run_events server_step s es = Some s' \<and> length (clients s') = Suc t \<and>
    pc (clients s' ! t) = Closed \<and> time_mutex s' Person1 = Some t \<and>
    (\<forall>u < t. clients s' ! u = clients s ! u)"
proof -
  have len: "length (clients s) = t"
    using queued_clients(1) [OF assms(1)] assms(2) by simp
  obtain c r where c: "run_events server_step s (join_events t it) =
      Some (s\<lparr>static_restaurant := r, clients := clients s @ [c]\<rparr>)"
    "at_choice it c" "length r = MAX_BUFFER_SIZE"
    using join_run [OF len, of it] assms(1) unfolding queued_def by blast
  let ?s = "s\<lparr>static_restaurant := r, clients := clients s @ [c]\<rparr>"
  have t: "t < length (clients ?s)" using len by simp
  have q: "person_mutex s = (\<lambda>_. None)" "time_mutex s = (\<lambda>_. None)"
    "next_available_time s Person1 = n1" "next_available_time s Person2 = n2"
    using assms(1) by (simp_all add: queued_def)
  have km: "km c = k" "0 \<le> k" using c(2) assms(3) by (simp_all add: at_choice_def)
  let ?s1 = "?s\<lparr>person_mutex := (person_mutex s)(Person2 := Some t)\<rparr>"
  let ?b = "(prompt c Person2)\<lparr>buffer := overlay yes_answer (buffer (prompt c Person2)),
    pc := BookLoading Person2 True\<rparr>"
  let ?s2 = "?s1\<lparr>next_available_time := (next_available_time s)(Person2 := n2 + k),
    person_mutex := (person_mutex s)(Person2 := None),
    time_mutex := (time_mutex s)(Person1 := Some t), misuse := True\<rparr>"
  have "solo 4 ?s t c = Some (?s1, prompt c Person2)"
    using solo_prompt [of c Person2 ?s t] c(2) q assms(4,5) km
    by (simp add: at_choice_def first_free_def del: solo_numeral)
  then have one: "run_events server_step ?s (replicate 4 (Run t)) =
      Some (put_client ?s1 t (prompt c Person2))"
    using solo_run_last [of "s\<lparr>static_restaurant := r\<rparr>" t 4 c] len by simp
  have two: "server_step (put_client ?s1 t (prompt c Person2)) (Recv t yes_answer) =
      Some (put_client ?s1 t ?b)"
    using t by (intro yes_step) simp_all
  have "solo 5 ?s1 t ?b = Some (?s2, yes_booked ?b)"
    using solo_yes_second [of ?b ?s1 t] q km by (simp del: solo_numeral)
  from solo_run [OF _ this] t have three:
    "run_events server_step (put_client ?s1 t ?b) (replicate 5 (Run t)) =
      Some (put_client ?s2 t (yes_booked ?b))" by simp
  obtain s3 where "solo (nat (km ?b) * 5 + 4) ?s2 t (yes_booked ?b) = Some (s3, arrive (yes_booked ?b))"
    "time_mutex s3 = time_mutex ?s2" "clients s3 = clients ?s2"
    using solo_deliver [of "yes_booked ?b" Person2 ?s2 t] km q by (simp add: yes_booked_def)
  with solo_run [of t ?s2] t have four:
    "run_events server_step (put_client ?s2 t (yes_booked ?b)) (replicate (nat (km ?b) * 5 + 4) (Run t)) =
      Some (put_client s3 t (arrive (yes_booked ?b)))"
    "time_mutex s3 Person1 = Some t" "clients s3 = clients s @ [c]" by simp_all
  let ?es = "join_events t it @ replicate 4 (Run t) @ [Recv t yes_answer] @ replicate 5 (Run t) @
    replicate (nat (km ?b) * 5 + 4) (Run t)"
  have "run_events server_step s ?es = Some (put_client s3 t (arrive (yes_booked ?b)))"
    using two by (simp only: run_events_append c(1) one three four(1) option.case run_events.simps)
  then show ?thesis
    using four(2,3) len
    by (intro exI [of _ ?es] exI [of _ "put_client s3 t (arrive (yes_booked ?b))"])
      (simp add: nth_append)
qed

section \<open>Two threads in one section\<close>

text \<open>
  Thread \<open>b\<close> has answered Yes for the first person and is about to unlock for the first time;
  \<open>a\<close> waits in the delivery loop and \<open>c\<close> before the test for the same mutex. The second unlock of
  \<open>b\<close> takes the mutex from \<open>a\<close>, and \<open>c\<close> enters while \<open>a\<close> is inside.
\<close>

lemma overlap_run:
  assumes "a < length (clients s)" and "b < length (clients s)" and "c < length (clients s)"
    and "a \<noteq> b" and "b \<noteq> c" and "a \<noteq> c"
    and "pc (clients s ! a) = DecLocking Person1" and "pc (clients s ! b) = YesUnlocking Person1"
    and "pc (clients s ! c) = Locking Person1" and "person_mutex s Person1 = Some b"
  shows "\<exists>s'. run_events server_step s [Run b, Run a, Run b, Run c] = Some s' \<and>
    in_section s' a Person1 \<and> in_section s' c Person1"
  using assms
  by (simp add: thread_step_def lock_person_def unlock_person_def put_client_def in_section_def
      nth_list_update)

lemma solo_at:
  assumes "t < length (clients s)" and "solo n s t (clients s ! t) = Some (s1, c1)"
  shows "run_events server_step s (replicate n (Run t)) = Some (put_client s1 t c1)"
proof -
  have "put_client s t (clients s ! t) = s" by (simp add: put_client_def)
  with solo_run [OF assms] show ?thesis by simp
qed

text \<open>A client that joins and has chosen the first person.\<close>

lemma join_locking:
  assumes "length (clients s) = t" and "length (static_restaurant s) = MAX_BUFFER_SIZE"
    and "next_available_time s Person1 \<le> next_available_time s Person2"
    and "reachable server_start server_step s"
  shows "\<exists>c r. reachable server_start server_step
      (s\<lparr>static_restaurant := r, clients := clients s @ [c]\<rparr>) \<and>
    pc c = Locking Person1 \<and> km c = sint (shop_km (item_shop it)) \<and> length r = MAX_BUFFER_SIZE"
proof -
  obtain c r where c: "run_events server_step s (join_events t it) =
      Some (s\<lparr>static_restaurant := r, clients := clients s @ [c]\<rparr>)"
    "at_choice it c" "length r = MAX_BUFFER_SIZE"
    using join_run [OF assms(1,2), of it] by blast
  let ?s = "s\<lparr>static_restaurant := r, clients := clients s @ [c]\<rparr>"
  have "solo 2 ?s t c = Some (?s, c\<lparr>pc := Locking Person1\<rparr>)"
    using c(2) assms(3) by (simp add: thread_step_def at_choice_def)
  then have "run_events server_step ?s (replicate 2 (Run t)) =
      Some (put_client ?s t (c\<lparr>pc := Locking Person1\<rparr>))"
    using solo_run_last [of "s\<lparr>static_restaurant := r\<rparr>" t 2 c] assms(1) by (simp del: solo_numeral)
  moreover have "put_client ?s t (c\<lparr>pc := Locking Person1\<rparr>) =
      s\<lparr>static_restaurant := r, clients := clients s @ [c\<lparr>pc := Locking Person1\<rparr>]\<rparr>"
    using assms(1) by (simp add: put_client_def list_update_append)
  ultimately have "reachable server_start server_step
      (s\<lparr>static_restaurant := r, clients := clients s @ [c\<lparr>pc := Locking Person1\<rparr>]\<rparr>)"
    using reachable_run [OF reachable_run [OF assms(4) c(1)]] by simp
  then show ?thesis using c(2,3)
    by (intro exI [of _ "c\<lparr>pc := Locking Person1\<rparr>"] exI [of _ r]) (simp add: at_choice_def)
qed

text \<open>The thread that got the mutex is prompted, says Yes and books; it still holds the mutex.\<close>

lemma yes_first_run:
  assumes "t < length (clients s)" and "pc (clients s ! t) = Locking Person1"
    and "person_mutex s Person1 = None"
    and "30 < next_available_time s Person1 + km (clients s ! t)"
    and "reachable server_start server_step s"
  shows "\<exists>c f. reachable server_start server_step
      (put_client (s\<lparr>person_mutex := (person_mutex s)(Person1 := Some t), next_available_time := f\<rparr>) t c) \<and>
    pc c = YesUnlocking Person1"
proof -
  let ?c = "clients s ! t" and ?s1 = "s\<lparr>person_mutex := (person_mutex s)(Person1 := Some t)\<rparr>"
  let ?b = "(prompt ?c Person1)\<lparr>buffer := overlay yes_answer (buffer (prompt ?c Person1)),
    pc := BookLoading Person1 True\<rparr>"
  let ?f = "(next_available_time s)(Person1 := next_available_time s Person1 + km ?c)"
  have "solo 2 s t ?c = Some (?s1, prompt ?c Person1)"
    using assms(2-4) by (simp add: thread_step_def lock_person_def km_def prompt_def respond_def Let_def)
  from solo_at [OF assms(1) this] have r1:
    "reachable server_start server_step (put_client ?s1 t (prompt ?c Person1))"
    by (rule reachable_run [OF assms(5)])
  have "server_step (put_client ?s1 t (prompt ?c Person1)) (Recv t yes_answer) =
      Some (put_client ?s1 t ?b)"
    using assms(1) by (intro yes_step) simp_all
  with r1 have r2: "reachable server_start server_step (put_client ?s1 t ?b)"
    by (rule reachable.step)
  have book: "solo 2 ?s1 t ?b =
      Some (?s1\<lparr>next_available_time := ?f\<rparr>, ?b\<lparr>booked := True, pc := YesUnlocking Person1\<rparr>)"
    by (simp add: thread_step_def km_def prompt_def respond_def Let_def)
  have "t < length (clients ?s1)" using assms(1) by simp
  from reachable_run [OF r2 solo_run [OF this book]] have "reachable server_start server_step
      (put_client (?s1\<lparr>next_available_time := ?f\<rparr>) t (?b\<lparr>booked := True, pc := YesUnlocking Person1\<rparr>))"
    .
  then show ?thesis
    by (intro exI [of _ "?b\<lparr>booked := True, pc := YesUnlocking Person1\<rparr>"] exI [of _ ?f]) simp
qed

text \<open>The first client of the queue starts its delivery and comes to the lock in the loop.\<close>

lemma start_delivery_run:
  assumes "t < length (clients s)" and "pc (clients s ! t) = TimeLocking d"
    and "0 < km (clients s ! t)" and "time_mutex s d = None"
    and "reachable server_start server_step s"
  shows "\<exists>c. reachable server_start server_step
      (put_client (s\<lparr>time_mutex := (time_mutex s)(d := Some t)\<rparr>) t c) \<and> pc c = DecLocking d"
proof -
  let ?c = "(clients s ! t)\<lparr>loop_i := 0, pc := DecLocking d\<rparr>"
  have "solo 2 s t (clients s ! t) = Some (s\<lparr>time_mutex := (time_mutex s)(d := Some t)\<rparr>, ?c)"
    using assms(2-4) by (simp add: thread_step_def lock_time_def km_def)
  from reachable_run [OF assms(5) solo_at [OF assms(1) this]] show ?thesis
    by (intro exI [of _ ?c]) simp
qed

lemma overlap_reachable:
  "\<exists>s. reachable server_start server_step s \<and> in_section s 0 Person1 \<and> in_section s 7 Person1"
proof -
  obtain s where s: "reachable server_start server_step s" "queued s 24 24
      [(Person1, 8), (Person2, 8), (Person1, 8), (Person2, 8), (Person1, 8), (Person2, 8)]"
    using six_queued by blast
  have len: "length (clients s) = 6" using queued_clients(1) [OF s(2)] by simp
  have q: "person_mutex s = (\<lambda>_. None)" "time_mutex s = (\<lambda>_. None)"
    "next_available_time s Person1 = 24" "next_available_time s Person2 = 24"
    "length (static_restaurant s) = MAX_BUFFER_SIZE"
    "pc (clients s ! 0) = TimeLocking Person1" "km (clients s ! 0) = 8"
    using s(2) queued_clients(2) [OF s(2), of 0] by (simp_all add: queued_def)
  obtain c6 r6 where c6: "reachable server_start server_step
      (s\<lparr>static_restaurant := r6, clients := clients s @ [c6]\<rparr>)"
    "pc c6 = Locking Person1" "km c6 = 8" "length r6 = MAX_BUFFER_SIZE"
    using join_locking [of s 6 FriedRice] len q s(1) by auto
  let ?s6 = "s\<lparr>static_restaurant := r6, clients := clients s @ [c6]\<rparr>"
  obtain c7 r7 where c7: "reachable server_start server_step
      (?s6\<lparr>static_restaurant := r7, clients := clients ?s6 @ [c7]\<rparr>)" "pc c7 = Locking Person1"
    using join_locking [of ?s6 7 FriedRice] len q c6(1,4) by auto
  let ?s7 = "?s6\<lparr>static_restaurant := r7, clients := clients ?s6 @ [c7]\<rparr>"
  have at: "clients ?s7 ! 0 = clients s ! 0" "clients ?s7 ! 6 = c6" "clients ?s7 ! 7 = c7"
    "length (clients ?s7) = 8"
    using len by (simp_all add: nth_append)
  obtain d6 f where d6: "reachable server_start server_step
      (put_client (?s7\<lparr>person_mutex := (person_mutex ?s7)(Person1 := Some 6), next_available_time := f\<rparr>) 6 d6)"
    "pc d6 = YesUnlocking Person1"
    using yes_first_run [of 6 ?s7] at q c6(2,3) c7(1) by auto
  let ?s8 = "put_client (?s7\<lparr>person_mutex := (person_mutex ?s7)(Person1 := Some 6),
    next_available_time := f\<rparr>) 6 d6"
  have at8: "clients ?s8 ! 0 = clients s ! 0" "clients ?s8 ! 6 = d6" "clients ?s8 ! 7 = c7"
    "length (clients ?s8) = 8" "time_mutex ?s8 Person1 = None"
    using at q by simp_all
  obtain d0 where d0: "reachable server_start server_step
      (put_client (?s8\<lparr>time_mutex := (time_mutex ?s8)(Person1 := Some 0)\<rparr>) 0 d0)"
    "pc d0 = DecLocking Person1"
    using start_delivery_run [of 0 ?s8 Person1] at8 q d6(1) by auto
  let ?s9 = "put_client (?s8\<lparr>time_mutex := (time_mutex ?s8)(Person1 := Some 0)\<rparr>) 0 d0"
  have "\<exists>s'. run_events server_step ?s9 [Run 6, Run 0, Run 6, Run 7] = Some s' \<and>
    in_section s' 0 Person1 \<and> in_section s' 7 Person1"
    using at8 d6(2) d0(2) c7(2) at(4) by (intro overlap_run) simp_all
  with reachable_run [OF d0(1)] show ?thesis by blast
qed

end
