(* ===== verification/Hw3_Properties.thy ===== *)
theory Hw3_Properties
  imports Hw3_Defects
begin

text \<open>
  The remaining invariants of the delivery server (who holds a person's mutex is inside its
  section; the price is the bill of the requests) and the properties of the server.
\<close>

section \<open>The holder is inside\<close>

definition holder_inv :: "server \<Rightarrow> bool" where
  "holder_inv s \<longleftrightarrow> (\<forall>t d. person_mutex s d = Some t \<longrightarrow> in_section s t d)"

lemma holder_move:
  assumes "moves s t c s1 c1"
    and "\<And>d. person_mutex s d = Some t \<Longrightarrow> person_section (pc c) = Some d"
  shows "person_mutex s1 d = Some t \<Longrightarrow> person_section (pc c1) = Some d"
    and "u \<noteq> t \<Longrightarrow> person_mutex s1 d = Some u \<Longrightarrow> person_mutex s d = Some u"
proof -
  have "(\<forall>d. person_mutex s1 d = Some t \<longrightarrow> person_section (pc c1) = Some d) \<and>
    (\<forall>u d. u \<noteq> t \<longrightarrow> person_mutex s1 d = Some u \<longrightarrow> person_mutex s d = Some u)"
    using assms(1) unfolding moves_def
  proof (elim disjE exE)
    assume step: "thread_step s t c = Some (s1, c1)"
    from assms(2) have own: "\<forall>d. person_mutex s d = Some t \<longrightarrow> person_section (pc c) = Some d"
      by blast
    show ?thesis
    proof (cases "pc c")
      case (Unlocking d yes)
      with step own show ?thesis by (cases yes) (auto simp: thread_step_def lock_simps split: if_splits)
    qed (use step own in \<open>auto simp: thread_step_def lock_simps take_order_pc dest!: lock_frame
          split: option.splits if_splits person.splits\<close>)
  next
    fix bytes assume "recv_step s t c bytes = Some (s1, c1)"
    then show ?thesis
    proof (cases rule: recv_step_cases)
      case request
      then show ?thesis using assms(2) handle_request_shared(2) [OF request(2,1)] by auto
    next
      case (answer d)
      then show ?thesis using assms(2)
        using handle_answer_shared(6) [of c d bytes] by auto
    qed
  qed
  then show "person_mutex s1 d = Some t \<Longrightarrow> person_section (pc c1) = Some d"
    and "u \<noteq> t \<Longrightarrow> person_mutex s1 d = Some u \<Longrightarrow> person_mutex s d = Some u" by blast+
qed

interpretation hw3_holder: inductive_invariant server_start server_step holder_inv
proof unfold_locales
  show "holder_inv server_start"
    by (simp add: holder_inv_def server_start_def mutex_free_def)
next
  fix s e s' assume inv: "holder_inv s" and "server_step s e = Some s'"
  from this(2) show "holder_inv s'"
  proof (cases rule: server_step_cases)
    case (move t s1 c1)
    note cl = moves_clients [OF move(2)]
    have own: "person_mutex s d = Some t \<Longrightarrow> person_section (pc (clients s ! t)) = Some d" for d
      using inv by (simp add: holder_inv_def in_section_def)
    show ?thesis
      using holder_move [OF move(2) own] inv move(1,3) cl
      by (auto simp: holder_inv_def sections_put sections_shared [OF cl])
  qed (use inv in \<open>auto simp: holder_inv_def\<close>)
qed

text \<open>Unlocking is misuse exactly at the second unlock after a Yes.\<close>

lemma misuse_step:
  assumes "thread_step s t c = Some (s1, c1)" and "\<not> misuse s"
    and "\<And>d. person_section (pc c) = Some d \<Longrightarrow> person_mutex s d = Some t"
    and "\<And>d. time_section (pc c) = Some d \<Longrightarrow> time_mutex s d = Some t"
    and "\<And>d. person_section (pc c) = None \<Longrightarrow> person_mutex s d \<noteq> Some t"
  shows "misuse s1 \<longleftrightarrow> (\<exists>d. pc c = Unlocking d True)"
proof (cases "pc c")
  case (Unlocking d yes)
  with assms show ?thesis by (cases yes) (auto simp: thread_step_def lock_simps)
qed (use assms in \<open>auto simp: thread_step_def lock_simps dest!: lock_frame
      split: option.splits if_splits\<close>)

lemma misuse_iff_second_unlock:
  assumes "reachable server_start server_step s" and "\<not> misuse s" and "server_step s e = Some s'"
  shows "misuse s' \<longleftrightarrow>
    (\<exists>t d. e = Run t \<and> t < length (clients s) \<and> pc (clients s ! t) = Unlocking d True)"
proof (cases e)
  case (Recv t bytes)
  then obtain s1 c1 where m: "t < length (clients s)" "recv_step s t (clients s ! t) bytes = Some (s1, c1)"
    "s' = put_client s1 t c1" using assms(3) by (auto split: if_splits)
  from m(2) have "misuse s1 = misuse s"
    by (cases rule: recv_step_cases) (auto dest: handle_request_shared)
  with m(3) Recv assms(2) show ?thesis by simp
next
  case (Run t)
  then obtain s1 c1 where m: "t < length (clients s)" "thread_step s t (clients s ! t) = Some (s1, c1)"
    "s' = put_client s1 t c1" using assms(3) by (auto split: if_splits)
  have "misuse s1 \<longleftrightarrow> (\<exists>d. pc (clients s ! t) = Unlocking d True)"
  proof (rule misuse_step [OF m(2) assms(2)])
    fix d
    show "person_section (pc (clients s ! t)) = Some d \<Longrightarrow> person_mutex s d = Some t"
      using hw3_person.inv_reachable [OF assms(1)] assms(2) m(1)
      by (simp add: person_inv_def in_section_def)
    show "time_section (pc (clients s ! t)) = Some d \<Longrightarrow> time_mutex s d = Some t"
      using hw3_time.inv_reachable [OF assms(1)] m(1) by (simp add: time_inv_def delivering_def)
    show "person_section (pc (clients s ! t)) = None \<Longrightarrow> person_mutex s d \<noteq> Some t"
      using hw3_holder.inv_reachable [OF assms(1)] by (auto simp: holder_inv_def in_section_def)
  qed
  with m(1,3) Run show ?thesis by simp
qed (use assms in auto)

text \<open>
  The second unlock after a Yes is of a mutex the thread does not hold, whatever has gone wrong
  before, and the flag, once set, stays.
\<close>

lemma second_unlock_not_held:
  assumes "reachable server_start server_step s" and "t < length (clients s)"
    and "pc (clients s ! t) = Unlocking d True"
  shows "person_mutex s d \<noteq> Some t"
proof
  assume "person_mutex s d = Some t"
  then have "in_section s t d" using hw3_holder.inv_reachable [OF assms(1)] by (simp add: holder_inv_def)
  with assms(3) show False by (simp add: in_section_def)
qed

lemma second_unlock_misuse:
  assumes "reachable server_start server_step s" and "server_step s (Run t) = Some s'"
    and "t < length (clients s)" and "pc (clients s ! t) = Unlocking d True"
  shows "misuse s'"
  using second_unlock_not_held [OF assms(1,3,4)] assms(2-4)
  by (auto simp: thread_step_def unlock_person_def)

lemma misuse_stays_step: "server_step s e = Some s' \<Longrightarrow> misuse s \<Longrightarrow> misuse s'"
  by (erule server_step_cases) (auto dest: misuse_stays)

lemma misuse_stays_run: "run_events server_step s es = Some s' \<Longrightarrow> misuse s \<Longrightarrow> misuse s'"
  by (induction es arbitrary: s) (auto split: option.splits dest: misuse_stays_step)

text \<open>A run of which some step is a second unlock after a Yes.\<close>

definition second_unlock_in :: "event list \<Rightarrow> bool" where
  "second_unlock_in es \<longleftrightarrow> (\<exists>before t after s d. es = before @ Run t # after \<and>
    run_events server_step server_start before = Some s \<and> t < length (clients s) \<and>
    pc (clients s ! t) = Unlocking d True)"

lemma second_unlock_in_snoc: "second_unlock_in es \<Longrightarrow> second_unlock_in (es @ [e])"
  unfolding second_unlock_in_def by (metis append.assoc append_Cons)

lemma misuse_needs_second_unlock:
  assumes "run_events server_step server_start es = Some s" and "misuse s"
  shows "second_unlock_in es"
  using assms
proof (induction es arbitrary: s rule: rev_induct)
  case Nil
  then show ?case by (auto simp: server_start_def)
next
  case (snoc e es)
  then obtain r where r: "run_events server_step server_start es = Some r" "server_step r e = Some s"
    by (auto simp: run_events_append split: option.splits)
  show ?case
  proof (cases "misuse r")
    case False
    from misuse_iff_second_unlock [OF run_reachable [OF r(1)] False r(2)] snoc.prems(2) r(1)
    show ?thesis unfolding second_unlock_in_def by blast
  qed (use snoc.IH [OF r(1)] second_unlock_in_snoc in blast)
qed

lemma second_unlock_gives_misuse:
  assumes "run_events server_step server_start es = Some s" and "second_unlock_in es"
  shows "misuse s"
proof -
  obtain before t after r d where w: "es = before @ Run t # after"
    "run_events server_step server_start before = Some r" "t < length (clients r)"
    "pc (clients r ! t) = Unlocking d True" using assms(2) unfolding second_unlock_in_def by blast
  obtain r' where r': "server_step r (Run t) = Some r'" "run_events server_step r' after = Some s"
    using assms(1) w(1,2) by (auto simp: run_events_append simp del: server_step.simps split: option.splits)
  from second_unlock_misuse [OF run_reachable [OF w(2)] r'(1) w(3,4)] r'(2) show ?thesis
    by (rule misuse_stays_run [rotated])
qed

section \<open>Invariants of single clients\<close>

text \<open>
  What holds of a new client and is kept by every move of its own thread holds of every client
  in every reachable state.
\<close>

locale client_invariant =
  fixes P :: "client \<Rightarrow> bool"
  assumes P_new: "P new_client"
    and P_move: "moves s t c s1 c1 \<Longrightarrow> P c \<Longrightarrow> P c1"
begin

lemma all_clients_step:
  assumes "\<forall>c \<in> set (clients s). P c" and "server_step s e = Some s'"
  shows "\<forall>c \<in> set (clients s'). P c"
  using assms(2)
proof (cases rule: server_step_cases)
  case (move t s1 c1)
  with assms(1) have "P c1" by (auto intro: P_move)
  with assms(1) move(3) moves_clients [OF move(2)] show ?thesis
    by (auto dest: set_update_subset_insert [THEN subsetD])
qed (use assms(1) P_new in auto)

sublocale everyone: inductive_invariant server_start server_step "\<lambda>s. \<forall>c \<in> set (clients s). P c"
  by unfold_locales (simp add: server_start_def, rule all_clients_step)

lemma client_reachable:
  "reachable server_start server_step s \<Longrightarrow> t < length (clients s) \<Longrightarrow> P (clients s ! t)"
  using everyone.inv_reachable by simp

end

fun confirmed :: "pc \<Rightarrow> bool" where
  "confirmed Reading \<longleftrightarrow> False"
| "confirmed Copying \<longleftrightarrow> False"
| "confirmed Closed \<longleftrightarrow> False"
| "confirmed Undefined \<longleftrightarrow> False"
| "confirmed _ \<longleftrightarrow> True"

text \<open>
  The counters are those of the requests taken so far; from \<open>confirm\<close> on, the price is that of
  the counters at the restaurant of this client.
\<close>

definition charge_ok :: "client \<Rightarrow> bool" where
  "charge_ok c \<longleftrightarrow>
    (\<forall>it. count (ord c) it = count (add_all update_item_count empty_order (requests c)) it) \<and>
    (confirmed (pc c) \<longrightarrow> total_price c = compute_price (ord c) (restaurant c))"

lemma count_distance [simp]: "count (o'\<lparr>distance := k\<rparr>) it = count o' it"
  by (cases it) simp_all

lemma charge_ok_take_order:
  assumes "\<forall>it. count (ord c) it = count (add_all update_item_count empty_order (requests c)) it"
  shows "charge_ok (take_order c)"
  using assms sendtoclient_total
  by (auto simp: charge_ok_def take_order_def Let_def count_update_item_count add_all_append
      split: option.splits)

lemma charge_ok_handle_order:
  assumes "handle_order s c = (s1, c1)"
    and "\<forall>it. count (ord c) it = count (add_all update_item_count empty_order (requests c)) it"
  shows "charge_ok c1"
proof (cases "parse_order (buffer c)")
  case None
  with assms show ?thesis by (auto simp: handle_order_def charge_ok_def)
next
  case (Some iq)
  obtain it q where iq: "iq = (it, q)" by (cases iq)
  show ?thesis
  proof (cases "firstorder c")
    case False
    with assms Some iq charge_ok_take_order [of "c\<lparr>ord_item := it, quantity := q\<rparr>"] show ?thesis
      by (auto simp: handle_order_def Let_def)
  next
    case True
    have "count o' it' = count (ord c) it'"
      if "determine_restaurant (ord c) (static_restaurant s) it = Some (o', st)" for o' st it'
      using that by (auto simp: determine_restaurant_def split: if_splits)
    with True assms Some iq show ?thesis
      by (auto simp: handle_order_def Let_def charge_ok_def split: option.splits)
  qed
qed

lemma charge_ok_frame:
  assumes "charge_ok c" and "ord c1 = ord c" and "requests c1 = requests c"
    and "confirmed (pc c1) \<longrightarrow>
      total_price c1 = total_price c \<and> restaurant c1 = restaurant c \<and> confirmed (pc c)"
  shows "charge_ok c1"
  using assms by (auto simp: charge_ok_def)

lemma charge_ok_request:
  assumes "handle_request s c bytes = (s1, c1)" and "charge_ok c" and "pc c = Reading"
  shows "charge_ok c1"
proof -
  let ?c = "c\<lparr>buffer := overlay bytes (zeros MAX_BUFFER_SIZE), response := zeros MAX_BUFFER_SIZE\<rparr>"
  have ok: "\<forall>it. count (ord ?c) it = count (add_all update_item_count empty_order (requests ?c)) it"
    using assms(2) by (simp add: charge_ok_def)
  show ?thesis
  proof (cases "handle_order s ?c = (s1, c1)")
    case True
    from charge_ok_handle_order [OF this ok] show ?thesis .
  next
    case False
    with assms ok show ?thesis
      by (auto simp: handle_request_def_full Let_def charge_ok_def split: if_splits)
  qed
qed

interpretation hw3_charge: client_invariant charge_ok
proof unfold_locales
  show "charge_ok new_client" by (simp add: charge_ok_def new_client_def)
next
  fix s t c s1 c1 assume "moves s t c s1 c1" and ok: "charge_ok c"
  from this(1) show "charge_ok c1" unfolding moves_def
  proof (elim disjE exE)
    assume step: "thread_step s t c = Some (s1, c1)"
    show ?thesis
    proof (cases "pc c = Copying")
      case True
      with step ok charge_ok_take_order show ?thesis
        by (auto simp: thread_step_def charge_ok_def split: option.splits)
    next
      case False
      with step show ?thesis
        by (intro charge_ok_frame [OF ok]; cases "pc c")
          (auto simp: thread_step_def split: if_splits person.splits)
    qed
  next
    fix bytes assume "recv_step s t c bytes = Some (s1, c1)"
    then show ?thesis
    proof (cases rule: recv_step_cases)
      case request
      with charge_ok_request ok show ?thesis by blast
    next
      case (answer d)
      with ok show ?thesis
        by (auto simp: charge_ok_def handle_answer_def Let_def)
    qed
  qed
qed

section \<open>Undefined behaviour\<close>

lemma parse_order_total:
  assumes "terminated buf" and "length buf = MAX_BUFFER_SIZE"
  shows "\<exists>it q. parse_order buf = Some (it, q)"
proof -
  let ?ds = "map Literal ''order'' @ [Space, Percent_s, Space, Percent_d]"
  have fits: "\<exists>it. strcpy (zeros MAX_BUFFER_SIZE) w = Some it"
    if "ConvS w \<in> set (sscanf ?ds (cstr buf))" for w
    using sscanf_word_bounds [OF that] length_cstr_less [OF assms(1)] assms(2) length_cstr_le [of w]
    by (intro strcpy_fits) simp
  define cs where "cs = sscanf ?ds (cstr buf)"
  have p: "parse_order buf = (case cs of
       ConvS w # ConvD q # _ \<Rightarrow> map_option (\<lambda>it. (it, q)) (strcpy (zeros MAX_BUFFER_SIZE) w)
     | ConvS w # _ \<Rightarrow> map_option (\<lambda>it. (it, 0)) (strcpy (zeros MAX_BUFFER_SIZE) w)
     | _ \<Rightarrow> Some (zeros MAX_BUFFER_SIZE, 0))"
    by (simp only: parse_order_def cs_def)
  have "\<exists>it. strcpy (zeros MAX_BUFFER_SIZE) w = Some it" if "cs = ConvS w # rest" for w rest
    using fits [of w] that by (simp only: cs_def [symmetric]) simp
  then show ?thesis
    unfolding p by (fastforce split: list.splits conversion.splits)
qed

lemma handle_order_defined:
  assumes "handle_order s c = (s1, c1)" and "terminated (buffer c)" and "sizes c"
    and "static_ok (static_restaurant s)"
  shows "pc c1 \<noteq> Undefined"
proof -
  obtain it q where p: "parse_order (buffer c) = Some (it, q)"
    using parse_order_total [OF assms(2)] assms(3) by (auto simp: sizes_def)
  obtain o' st where "determine_restaurant (ord c) (static_restaurant s) it = Some (o', st)"
    using determine_restaurant_total assms(4) by (auto simp: static_ok_def) blast
  with assms(1) p show ?thesis
    by (auto simp: handle_order_def Let_def take_order_pc split: if_splits)
qed

lemma handle_request_undefined:
  assumes "handle_request s c bytes = (s1, c1)" and "pc c = Reading" and "sizes c"
    and "static_ok (static_restaurant s)" and "length bytes \<le> MAX_BUFFER_SIZE" and "pc c1 = Undefined"
  shows "length bytes = MAX_BUFFER_SIZE \<and> NUL \<notin> set bytes"
proof -
  let ?c = "c\<lparr>buffer := overlay bytes (zeros MAX_BUFFER_SIZE), response := zeros MAX_BUFFER_SIZE\<rparr>"
  have "sizes ?c" using assms(3,5) by (simp add: sizes_def length_overlay)
  then have "\<not> terminated (buffer ?c)"
    using assms(1,2,4,6) handle_order_defined [of s ?c s1 c1]
    by (auto simp: handle_request_def_full Let_def split: if_splits)
  then show ?thesis using assms(5) terminated_received [of bytes MAX_BUFFER_SIZE]
    by (auto simp: terminated_def overlay_def le_less)
qed

lemma thread_step_defined:
  assumes "thread_step s t c = Some (s1, c1)" and "client_wf c" and "static_ok (static_restaurant s)"
  shows "pc c1 \<noteq> Undefined"
proof (cases "pc c")
  case Copying
  have "length (cstr (static_restaurant s)) < length (restaurant c)"
    using assms(2,3) length_cstr_less [of "static_restaurant s"]
    by (simp add: static_ok_def client_wf_def sizes_def)
  then obtain r where "strcpy (restaurant c) (static_restaurant s) = Some r" using strcpy_fits by blast
  with assms(1) Copying show ?thesis by (auto simp: thread_step_def take_order_pc)
qed (use assms(1) in \<open>auto simp: thread_step_def split: if_splits person.splits\<close>)

lemma undefined_step:
  assumes "server_wf s" and "server_step s e = Some s'" and "t < length (clients s)"
    and "pc (clients s ! t) \<noteq> Undefined" and "pc (clients s' ! t) = Undefined"
  shows "\<exists>bytes. e = Recv t bytes \<and> pc (clients s ! t) = Reading \<and>
    length bytes = MAX_BUFFER_SIZE \<and> NUL \<notin> set bytes"
proof (cases e)
  case (Run u)
  then obtain s1 c1 where m: "u < length (clients s)" "thread_step s u (clients s ! u) = Some (s1, c1)"
    "s' = put_client s1 u c1" using assms(2) by (auto split: if_splits)
  have "clients s1 = clients s"
    using moves_clients [of s u "clients s ! u" s1 c1] m(2) by (simp add: moves_def)
  moreover have "pc c1 \<noteq> Undefined"
    using thread_step_defined [OF m(2)] assms(1) m(1) by (simp add: server_wf_def)
  ultimately show ?thesis using assms(3-5) m(3) by (cases "u = t") auto
next
  case (Recv u bytes)
  then obtain s1 c1 where m: "u < length (clients s)" "recv_step s u (clients s ! u) bytes = Some (s1, c1)"
    "s' = put_client s1 u c1" using assms(2) by (auto split: if_splits)
  have "clients s1 = clients s"
    using moves_clients [of s u "clients s ! u" s1 c1] m(2) by (auto simp: moves_def)
  with assms(3-5) m(3) have u: "u = t" "pc c1 = Undefined" by (cases "u = t"; auto)+
  have "client_wf (clients s ! u)" using assms(1) m(1) by (simp add: server_wf_def)
  from m(2) have "pc (clients s ! u) = Reading \<and> length bytes = MAX_BUFFER_SIZE \<and> NUL \<notin> set bytes"
  proof (cases rule: recv_step_cases)
    case request
    with handle_request_undefined u(2) assms(1) \<open>client_wf (clients s ! u)\<close> show ?thesis
      by (auto simp: server_wf_def client_wf_def)
  next
    case (answer d)
    with handle_answer_shared(6) [of "clients s ! u" d bytes] u(2) show ?thesis by auto
  qed
  with Recv u(1) show ?thesis by blast
qed (use assms in \<open>auto simp: nth_append\<close>)

lemma unterminated_request:
  assumes "length bytes = MAX_BUFFER_SIZE" and "NUL \<notin> set bytes"
  shows "pc (snd (handle_request s c bytes)) = Undefined"
proof -
  have "bytes \<noteq> []" using assms(1) by (auto simp: MAX_BUFFER_SIZE_def)
  moreover have "\<not> terminated (overlay bytes (zeros MAX_BUFFER_SIZE))"
    using assms by (simp add: terminated_def overlay_def zeros_def)
  ultimately show ?thesis by (simp add: handle_request_def_full)
qed

lemma unterminated_step:
  assumes "server_step s (Recv t bytes) = Some s'" and "t < length (clients s)"
    and "pc (clients s ! t) = Reading" and "length bytes = MAX_BUFFER_SIZE" and "NUL \<notin> set bytes"
  shows "pc (clients s' ! t) = Undefined"
proof -
  obtain s1 c1 where h: "handle_request s (clients s ! t) bytes = (s1, c1)" by fastforce
  then have "s' = put_client s1 t c1" using assms(1-4) by (simp add: recv_step_def)
  moreover have "recv_step s t (clients s ! t) bytes = Some (s1, c1)"
    using h assms(3,4) by (simp add: recv_step_def)
  then have "clients s1 = clients s"
    using moves_clients [of s t "clients s ! t" s1 c1] by (auto simp: moves_def)
  moreover have "pc c1 = Undefined" using unterminated_request [OF assms(4,5), of s "clients s ! t"] h by simp
  ultimately show ?thesis using assms(2) by simp
qed

section \<open>A lock that is never released\<close>

lemma closed_stays:
  assumes "time_inv s" and "server_step s e = Some s'" and "t < length (clients s)"
    and "pc (clients s ! t) = Closed" and "time_mutex s d = Some t"
  shows "t < length (clients s') \<and> pc (clients s' ! t) = Closed \<and> time_mutex s' d = Some t"
  using assms(2)
proof (cases rule: server_step_cases)
  case (move u s1 c1)
  have "u \<noteq> t"
    using move(2) assms(4) by (auto simp: moves_def thread_step_def recv_step_def split: if_splits)
  have own: "time_section (pc (clients s ! u)) = Some d \<Longrightarrow> time_mutex s d = Some u" for d
    using assms(1) move(1) by (simp add: time_inv_def delivering_def)
  from \<open>u \<noteq> t\<close> have "time_mutex s1 d = Some t"
    using time_move(2) [OF move(2) own, of t d] assms(5) by simp
  with \<open>u \<noteq> t\<close> move(3) moves_clients [OF move(2)] assms(3,4) show ?thesis by simp
qed (use assms in \<open>auto simp: nth_append\<close>)

lemma closed_stays_run:
  assumes "reachable server_start server_step s" and "run_events server_step s es = Some s'"
    and "t < length (clients s)" and "pc (clients s ! t) = Closed" and "time_mutex s d = Some t"
  shows "t < length (clients s') \<and> pc (clients s' ! t) = Closed \<and> time_mutex s' d = Some t"
  using assms
proof (induction es arbitrary: s)
  case (Cons e es)
  from Cons.prems(2) obtain s1 where s1: "server_step s e = Some s1"
    "run_events server_step s1 es = Some s'" by (auto split: option.splits)
  note c = closed_stays [OF hw3_time.inv_reachable [OF Cons.prems(1)] s1(1) Cons.prems(3-5)]
  from reachable.step [OF Cons.prems(1) s1(1)] show ?case using Cons.IH s1(2) c by blast
qed simp

lemma leak_reachable:
  "\<exists>s. reachable server_start server_step s \<and> length (clients s) = 8 \<and>
    pc (clients s ! 7) = Closed \<and> time_mutex s Person1 = Some 7 \<and>
    pc (clients s ! 0) = TimeLocking Person1"
proof -
  have "\<exists>s. reachable server_start server_step s \<and> queued s 27 24
    [(Person1, 8), (Person2, 8), (Person1, 8), (Person2, 8), (Person1, 8), (Person2, 8), (Person1, 3)]"
    using six_queued by (rule booking_reachable [where it = Cookie]) simp_all
  then obtain s where s: "reachable server_start server_step s" "queued s 27 24
    [(Person1, 8), (Person2, 8), (Person1, 8), (Person2, 8), (Person1, 8), (Person2, 8), (Person1, 3)]"
    by blast
  have "sint (shop_km (item_shop FriedRice)) = 8" by simp
  then have "\<exists>es s'. run_events server_step s es = Some s' \<and> length (clients s') = Suc 7 \<and>
    pc (clients s' ! 7) = Closed \<and> time_mutex s' Person1 = Some 7 \<and>
    (\<forall>u < 7. clients s' ! u = clients s ! u)"
    by (intro leak_run [OF s(2), where k = 8 and it = FriedRice]) simp_all
  then obtain es s' where s': "run_events server_step s es = Some s'" "length (clients s') = Suc 7"
    "pc (clients s' ! 7) = Closed" "time_mutex s' Person1 = Some 7"
    "\<forall>u < 7. clients s' ! u = clients s ! u" by blast
  from s'(5) have "clients s' ! 0 = clients s ! 0" by simp
  moreover from queued_clients(2) [OF s(2), of 0] have "pc (clients s ! 0) = TimeLocking Person1" by simp
  ultimately show ?thesis using reachable_run [OF s(1) s'(1)] s'(2-4) by (intro exI [of _ s']) simp
qed

end
