(* ===== verification/Hw3_Theorems.thy ===== *)
theory Hw3_Theorems
  imports Hw3_Properties
begin

text \<open>
  The properties of the delivery server, each with the concrete instance that shows its
  hypotheses can hold. The first section collects the facts they share: the states reached by
  the sample sessions, and what a lock held by a finished thread does to those that wait for it.
\<close>

section \<open>Sample states\<close>

text \<open>One client orders two cookies and confirms; the run stops just before the last message.\<close>

lemma sample_arriving:
  "\<exists>s. reachable server_start server_step s \<and> length (clients s) = 1 \<and> \<not> misuse s \<and>
    pc (clients s ! 0) = Arriving \<and> cstr (restaurant (clients s ! 0)) = shop_name DessertShop \<and>
    int_total (price_at DessertShop) (requests (clients s ! 0)) = 120"
  by (rule evaluated_run [where es = "Accept # take 28 (session_events 0 Cookie 2)"]) code_simp

text \<open>The same session inside the delivery loop, holding both mutexes of the first person.\<close>

lemma sample_delivering:
  "\<exists>s. reachable server_start server_step s \<and> \<not> misuse s \<and>
    delivering s 0 Person1 \<and> in_section s 0 Person1"
  by (rule evaluated_run [where es = "Accept # take 13 (session_events 0 Cookie 2)"]) code_simp

text \<open>The whole session, after which everything is closed.\<close>

lemma sample_closed:
  "\<exists>s. reachable server_start server_step s \<and> \<not> misuse s \<and> length (clients s) = 1 \<and>
    pc (clients s ! 0) = Closed \<and> booked (clients s ! 0) \<and> deliver (clients s ! 0) = Some Person1 \<and>
    km (clients s ! 0) = 3"
  by (rule evaluated_run [where es = "Accept # session_events 0 Cookie 2"]) code_simp

section \<open>Waiting for a lock that is never released\<close>

lemma waiting_stays:
  assumes "server_step s e = Some s'" and "u < length (clients s)"
    and "pc (clients s ! u) = TimeLocking d" and "time_mutex s d \<noteq> None"
  shows "u < length (clients s') \<and> pc (clients s' ! u) = TimeLocking d"
  using assms(1)
proof (cases rule: server_step_cases)
  case (move v s1 c1)
  have "v \<noteq> u"
    using move(2) assms(3,4)
    by (auto simp: moves_def thread_step_def recv_step_def dest!: lock_frame split: if_splits)
  with move(3) moves_clients [OF move(2)] assms(2,3) show ?thesis by simp
qed (use assms(2,3) in \<open>auto simp: nth_append\<close>)

lemma waiting_stays_run:
  assumes "reachable server_start server_step s" and "run_events server_step s es = Some s'"
    and "t < length (clients s)" and "pc (clients s ! t) = Closed" and "time_mutex s d = Some t"
    and "u < length (clients s)" and "pc (clients s ! u) = TimeLocking d"
  shows "u < length (clients s') \<and> pc (clients s' ! u) = TimeLocking d"
  using assms
proof (induction es arbitrary: s)
  case (Cons e es)
  from Cons.prems(2) obtain s1 where s1: "server_step s e = Some s1"
    "run_events server_step s1 es = Some s'" by (auto split: option.splits)
  note c = closed_stays [OF hw3_time.inv_reachable [OF Cons.prems(1)] s1(1) Cons.prems(3-5)]
  have "time_mutex s d \<noteq> None" using Cons.prems(5) by simp
  note w = waiting_stays [OF s1(1) Cons.prems(6,7) this]
  from reachable.step [OF Cons.prems(1) s1(1)] show ?case using Cons.IH s1(2) c w by blast
qed simp

section \<open>The bill of a client\<close>

lemma compute_price_counts:
  assumes "cstr r = shop_name sh" and "\<forall>it. count o' it = count o'' it"
  shows "compute_price o' r = compute_price o'' r"
  using assms by (simp add: compute_price_shop)

lemma charged_total:
  assumes "charge_ok c" and "confirmed (pc c)" and "cstr (restaurant c) = shop_name sh"
    and "- 2147483648 \<le> int_total (price_at sh) (requests c)"
    and "int_total (price_at sh) (requests c) \<le> 2147483647"
  shows "sint (total_price c) = int_total (price_at sh) (requests c)"
proof -
  let ?o = "add_all update_item_count empty_order (requests c)"
  have "total_price c = compute_price ?o (restaurant c)"
    using assms(1,2) compute_price_counts [OF assms(3), of "ord c" ?o] by (simp add: charge_ok_def)
  also have "\<dots> = compute_price ?o (shop_name sh)"
    using assms(3) by (intro compute_price_cstr) (simp add: cstr_id)
  finally show ?thesis using hw3_bill.bill_orders_int [OF assms(4,5)] by simp
qed

section \<open>The time of a person as a sum\<close>

lemma accounting_sum:
  assumes "reachable server_start server_step s" and "\<not> misuse s"
  shows "next_available_time s d = (\<Sum>c \<leftarrow> clients s. contribution d c)"
  using hw3_accounting.inv_reachable [OF assms(1)] assms(2)
  by (simp add: accounting_inv_def accounts_def)

lemma reachable_wf:
  "reachable server_start server_step s \<Longrightarrow> server_wf s"
  using hw3_accounting.inv_reachable by (simp add: accounting_inv_def)

lemma contribution_bounds:
  assumes "client_wf c" shows "- 8 \<le> contribution d c" and "contribution d c \<le> 8"
proof -
  have k: "0 \<le> km c" "km c \<le> 8" and p: "pc_wf (pc c) c"
    using assms possible_km_bounds by (auto simp: client_wf_def)
  have "- 8 \<le> contribution d c \<and> contribution d c \<le> 8"
    using k p by (cases "pc c") (auto simp: contribution_def)
  then show "- 8 \<le> contribution d c" and "contribution d c \<le> 8" by simp_all
qed

lemma contribution_closed:
  assumes "client_wf c" and "pc c = Closed"
  shows "contribution d c = (if deliver c = Some d \<and> loop_i c \<noteq> 0 \<and> \<not> booked c then - km c else 0)"
  using assms by (auto simp: client_wf_def contribution_def)

lemma sum_list_bounds:
  fixes f :: "'a \<Rightarrow> int"
  assumes "\<forall>x \<in> set xs. - k \<le> f x \<and> f x \<le> k"
  shows "- (k * int (length xs)) \<le> (\<Sum>x \<leftarrow> xs. f x) \<and> (\<Sum>x \<leftarrow> xs. f x) \<le> k * int (length xs)"
  using assms by (induction xs) (auto simp: algebra_simps)

section \<open>Shared time\<close>

text \<open>
  C1. The time of a delivery person is the distance of every client booked on that person minus
  what the delivery loops have taken away again, at every moment and for every interleaving, as
  long as no thread has unlocked a mutex it did not hold. No increment or decrement is lost.
\<close>

theorem accounting:
  assumes "reachable server_start server_step s" and "\<not> misuse s"
  shows "next_available_time s d = (\<Sum>c \<leftarrow> clients s. contribution d c)"
  using assms by (rule accounting_sum)

theorem accounting_witness:
  "\<exists>s. reachable server_start server_step s \<and> length (clients s) = 1 \<and>
    pc (clients s ! 0) = Closed \<and> booked (clients s ! 0) \<and>
    next_available_time s Person1 = (\<Sum>c \<leftarrow> clients s. contribution Person1 c)"
  using sample_closed accounting [of _ Person1] by blast

text \<open>
  The value of \<open>next_available_time\<close> never leaves the range of 8 per connected client, so the
  \<open>time_t\<close> of the code and the \<open>int\<close> copied from it cannot overflow before 2^28 clients.
\<close>

lemma time_bounds:
  assumes "reachable server_start server_step s" and "\<not> misuse s"
  shows "\<bar>next_available_time s d\<bar> \<le> 8 * int (length (clients s))"
proof -
  have "\<forall>c \<in> set (clients s). - 8 \<le> contribution d c \<and> contribution d c \<le> 8"
    using reachable_wf [OF assms(1)] contribution_bounds by (auto simp: server_wf_def)
  from sum_list_bounds [OF this] accounting_sum [OF assms] show ?thesis by auto
qed

text \<open>
  C30. As long as no thread has unlocked a mutex it did not hold (which no run does in which nobody
  answers Yes to the prompt): when every client has left, the time of a person is zero except for
  the clients that answered the prompt with neither Yes nor No. These were delivered without being
  booked, and each leaves its distance behind as a negative amount (the branch at hw3.c:222).
\<close>

theorem quiet_time:
  assumes "reachable server_start server_step s" and "\<not> misuse s"
    and "\<forall>c \<in> set (clients s). pc c = Closed"
  shows "next_available_time s d =
    - (\<Sum>c \<leftarrow> filter (\<lambda>c. deliver c = Some d \<and> loop_i c \<noteq> 0 \<and> \<not> booked c) (clients s). km c)"
proof -
  have "(\<Sum>c \<leftarrow> cs. contribution d c) =
    - (\<Sum>c \<leftarrow> filter (\<lambda>c. deliver c = Some d \<and> loop_i c \<noteq> 0 \<and> \<not> booked c) cs. km c)"
    if "\<forall>c \<in> set cs. client_wf c \<and> pc c = Closed" for cs
    using that by (induction cs) (auto simp: contribution_closed)
  then show ?thesis
    using assms reachable_wf [OF assms(1)] accounting_sum [OF assms(1,2)] by (simp add: server_wf_def)
qed

theorem quiet_time_witness:
  "\<exists>s. reachable server_start server_step s \<and> length (clients s) = 1 \<and> booked (clients s ! 0) \<and>
    pc (clients s ! 0) = Closed \<and> next_available_time s Person1 = 0"
proof -
  obtain s where s: "reachable server_start server_step s" "\<not> misuse s" "length (clients s) = 1"
    "pc (clients s ! 0) = Closed" "booked (clients s ! 0)" using sample_closed by blast
  then obtain c where "clients s = [c]" by (cases "clients s") auto
  with s quiet_time [OF s(1,2), of Person1] show ?thesis by (intro exI [of _ s]) auto
qed

section \<open>Mutual exclusion\<close>

text \<open>
  C3. Two threads are never in the delivery loop of the same person, in any reachable state, with
  or without misuse of the other mutexes: a person carries out one delivery at a time.
\<close>

theorem one_delivery_per_person:
  assumes "reachable server_start server_step s" and "delivering s t d" and "delivering s u d"
  shows "t = u"
  using hw3_time.exclusive [OF assms(1)] assms(2,3) by blast

theorem one_delivery_per_person_witness:
  "\<exists>s. reachable server_start server_step s \<and> delivering s 0 Person1 \<and> (\<forall>u. delivering s u Person1 \<longrightarrow> 0 = u)"
  using sample_delivering one_delivery_per_person [of _ 0 Person1] by blast

text \<open>
  C6. While nobody has unlocked a mutex it did not hold, at most one thread is between the lock and
  the unlock of a person's mutex, so that the check of the time, the prompt and the booking are
  atomic for each person.
\<close>

theorem person_exclusive:
  assumes "reachable server_start server_step s" and "\<not> misuse s"
    and "in_section s t d" and "in_section s u d"
  shows "t = u"
  using hw3_person.exclusive [OF assms(1), where d = d] assms(2-4) by blast

theorem person_exclusive_witness:
  "\<exists>s. reachable server_start server_step s \<and> in_section s 0 Person1 \<and> (\<forall>u. in_section s u Person1 \<longrightarrow> 0 = u)"
  using sample_delivering person_exclusive [of _ 0 Person1] by blast

text \<open>A state with a misuse is reachable.\<close>

lemma misuse_reachable: "\<exists>s. reachable server_start server_step s \<and> misuse s"
proof -
  obtain s where s: "reachable server_start server_step s" "in_section s 0 Person1"
      "in_section s 7 Person1" using overlap_reachable by blast
  have "misuse s"
  proof (rule ccontr)
    assume "\<not> misuse s"
    then have "(0 :: nat) = 7"
      using hw3_person.exclusive [OF s(1), where d = Person1] s(2,3) by blast
    then show False by simp
  qed
  with s(1) show ?thesis by blast
qed

text \<open>
  C7. In every run, some thread has unlocked a mutex it did not hold exactly when some thread has
  executed the second unlock after a Yes (hw3.c:233 after 220, hw3.c:270 after 254): the first
  foreign unlock is one of these, and each of these is one, in every state and also after earlier
  misuse. Other unlocks can hit a mutex of another thread only once that has happened, as in the
  overlap below.
\<close>

theorem misuse_exactly_second_unlock:
  assumes "run_events server_step server_start es = Some s"
  shows "(misuse s \<longleftrightarrow> (\<exists>before t after r d. es = before @ Run t # after \<and>
      run_events server_step server_start before = Some r \<and> t < length (clients r) \<and>
      pc (clients r ! t) = Unlocking d True)) \<and>
    (\<forall>t d. t < length (clients s) \<and> pc (clients s ! t) = Unlocking d True \<longrightarrow>
      person_mutex s d \<noteq> Some t)"
  using misuse_needs_second_unlock [OF assms] second_unlock_gives_misuse [OF assms]
    second_unlock_not_held [OF run_reachable [OF assms]]
  unfolding second_unlock_in_def by blast

theorem misuse_exactly_second_unlock_witness:
  "\<exists>es s. run_events server_step server_start es = Some s \<and>
    (\<exists>before t after r d. es = before @ Run t # after \<and>
      run_events server_step server_start before = Some r \<and> t < length (clients r) \<and>
      pc (clients r ! t) = Unlocking d True)"
proof -
  obtain s where "reachable server_start server_step s" "misuse s" using misuse_reachable by blast
  then obtain es where "run_events server_step server_start es = Some s" by (auto simp: reachable_iff_run)
  with misuse_exactly_second_unlock [OF this] \<open>misuse s\<close> show ?thesis by blast
qed

text \<open>
  C8. The second unlock breaks the mutual exclusion of \<open>person_exclusive\<close>: a state is reachable in
  which two threads are at once inside the section of the first person's mutex, one in its
  delivery loop and one in its booking.
\<close>

theorem double_unlock_overlap:
  "\<exists>s. reachable server_start server_step s \<and> in_section s 0 Person1 \<and> in_section s 7 Person1"
  by (rule overlap_reachable)

section \<open>The lock taken by mistake\<close>

text \<open>
  C9. After a Yes for the second person the thread locks \<open>mutex_time1\<close> (hw3.c:257) and never
  unlocks it. A state is reachable from which a client of the first person that waits for that
  mutex is still waiting after every further run.
\<close>

theorem leaked_lock_starves:
  "\<exists>s. reachable server_start server_step s \<and> length (clients s) = 8 \<and>
    (\<forall>es s'. run_events server_step s es = Some s' \<longrightarrow>
      pc (clients s' ! 0) = TimeLocking Person1)"
proof -
  obtain s where s: "reachable server_start server_step s" "length (clients s) = 8"
    "pc (clients s ! 7) = Closed" "time_mutex s Person1 = Some 7"
    "pc (clients s ! 0) = TimeLocking Person1" using leak_reachable by blast
  have "7 < length (clients s)" "0 < length (clients s)" using s(2) by simp_all
  with s waiting_stays_run [OF s(1) _ _ s(3,4) _ s(5)] show ?thesis by blast
qed

theorem leaked_lock_starves_witness:
  "\<exists>s. reachable server_start server_step s \<and> pc (clients s ! 0) = TimeLocking Person1"
proof -
  obtain s where s: "reachable server_start server_step s"
    "\<forall>es s'. run_events server_step s es = Some s' \<longrightarrow> pc (clients s' ! 0) = TimeLocking Person1"
    using leaked_lock_starves by auto
  from s(2) [rule_format, of "[]" s] s(1) show ?thesis by (intro exI [of _ s]) simp
qed

text \<open>
  The mutex of a delivery person, unlike \<open>mutex_time1\<close>, is never left locked: its holder is
  always inside the section that ends with its unlock, also after a misuse and on every early
  exit (No, end of the connection, cancel).
\<close>

lemma person_mutex_never_leaked:
  assumes "reachable server_start server_step s" and "person_mutex s d = Some t"
  shows "t < length (clients s) \<and> pc (clients s ! t) \<noteq> Closed \<and> in_section s t d"
proof -
  have "in_section s t d"
    using hw3_holder.inv_reachable [OF assms(1)] assms(2) by (simp add: holder_inv_def)
  then show ?thesis by (auto simp: in_section_def)
qed

section \<open>Orders, prices and sessions\<close>

text \<open>
  C5. The last message names the sum of price times quantity over the orders the client sent,
  with the prices of the restaurant of this client; names that are not on its menu count nothing.
  The condition is that the sum fits an \<open>int\<close>.
\<close>

theorem charged_amount:
  assumes "reachable server_start server_step s" and "t < length (clients s)"
    and "pc (clients s ! t) = Arriving" and "cstr (restaurant (clients s ! t)) = shop_name sh"
    and "- 2147483648 \<le> int_total (price_at sh) (requests (clients s ! t))"
    and "int_total (price_at sh) (requests (clients s ! t)) \<le> 2147483647"
  shows "\<exists>s'. server_step s (Run t) = Some s' \<and> pc (clients s' ! t) = Closed \<and>
    map cstr (outbox (clients s' ! t)) = map cstr (outbox (clients s ! t)) @
      [''Delivery has arrived and you need to pay '' @
        show_int (int_total (price_at sh) (requests (clients s ! t))) @ ''$'' @ NL]"
proof -
  let ?c = "clients s ! t"
  have "charge_ok ?c" using hw3_charge.client_reachable [OF assms(1,2)] .
  from charged_total [OF this _ assms(4-6)] assms(3)
  have "sint (total_price ?c) = int_total (price_at sh) (requests ?c)" by simp
  moreover have "map cstr (outbox (respond ?c (msg_arrived (total_price ?c)))) =
    map cstr (outbox ?c) @ [msg_arrived (total_price ?c)]"
    by (intro respond_outbox) simp_all
  ultimately show ?thesis
    using assms(2,3) by (simp add: thread_step_def msg_arrived_def)
qed

theorem charged_amount_witness:
  "\<exists>s s'. reachable server_start server_step s \<and> server_step s (Run 0) = Some s' \<and>
    length (clients s) = 1 \<and> map cstr (outbox (clients s' ! 0)) = map cstr (outbox (clients s ! 0)) @
      [''Delivery has arrived and you need to pay 120$'' @ NL]"
proof -
  obtain s where s: "reachable server_start server_step s" "length (clients s) = 1"
    "pc (clients s ! 0) = Arriving" "cstr (restaurant (clients s ! 0)) = shop_name DessertShop"
    "int_total (price_at DessertShop) (requests (clients s ! 0)) = 120"
    using sample_arriving by blast
  have "0 < length (clients s)" using s(2) by simp
  from charged_amount [OF s(1) this s(3,4)] s(5) obtain s' where
    "server_step s (Run 0) = Some s'"
    "map cstr (outbox (clients s' ! 0)) = map cstr (outbox (clients s ! 0)) @
      [''Delivery has arrived and you need to pay '' @ show_int 120 @ ''$'' @ NL]" by auto
  moreover have "show_int 120 = ''120''" by code_simp
  ultimately show ?thesis using s(1,2) by (intro exI [of _ s] exI [of _ s']) simp
qed

text \<open>
  The prices and distances on the menu the server sends are those it charges and drives:
  the text is built from the price of one item at its shop and the distance that
  \<open>determine_restaurant\<close> writes.
\<close>

lemma advertised_is_charged:
  "handle_shop_list = menu_shop DessertShop Cookie Cake @ menu_shop BeverageShop Tea Boba @
    menu_shop DinerShop FriedRice EggDropSoup"
  by code_simp

text \<open>
  C27. After an order the client is sent one buffer of 256 bytes that lists the items of its
  restaurant with a positive counter, separated by bars and closed by a newline, and nothing if
  there is none; neither \<open>snprintf\<close> truncates nor \<open>strcat\<close> writes past the buffer.
\<close>

theorem order_message:
  assumes "cstr r = shop_name sh"
  shows "\<exists>bs. sendtoclient ordr r = Some bs \<and> map cstr bs = order_text ordr sh \<and>
    (\<forall>b \<in> set bs. length b = MAX_BUFFER_SIZE)"
  using assms by (rule sendtoclient_shop)

theorem order_message_witness:
  "\<exists>b. sendtoclient (empty_order\<lparr>total_cookie := 2, total_cake := 1\<rparr>) ''Dessert shop'' = Some [b] \<and>
    cstr b = ''cookie 2|cake 1'' @ NL"
proof -
  let ?o = "empty_order\<lparr>total_cookie := 2, total_cake := 1\<rparr>"
  have "cstr ''Dessert shop'' = shop_name DessertShop" by (simp add: NUL_def)
  from order_message [OF this, of ?o] obtain bs where
    "sendtoclient ?o ''Dessert shop'' = Some bs" "map cstr bs = order_text ?o DessertShop" by blast
  moreover have "order_text ?o DessertShop = [''cookie 2|cake 1'' @ NL]" by code_simp
  ultimately show ?thesis by (cases bs) auto
qed

text \<open>
  C28. An order line \<open>order <name> <quantity>\<close>, for a name that is one word and any 32-bit quantity,
  negative ones included: if the line has at most 255 bytes the server reads back the name and the
  quantity; if it is longer, the 256 bytes that \<open>read\<close> takes from it leave the buffer without a NUL,
  and the request is one of those that overrun it.
\<close>

theorem parse_order_roundtrip:
  assumes "name \<noteq> []" and "NUL \<notin> set name" and "\<forall>c \<in> set name. \<not> is_space c"
  shows "if length (order_request name q) < MAX_BUFFER_SIZE
    then \<exists>it. parse_order (overlay (order_request name q) (zeros MAX_BUFFER_SIZE)) = Some (it, q) \<and>
      cstr it = name
    else pc (snd (handle_request s c (take MAX_BUFFER_SIZE (order_request name q)))) = Undefined"
proof (cases "length (order_request name q) < MAX_BUFFER_SIZE")
  case True
  with handle_request_order [OF assms, of q] show ?thesis by auto
next
  case False
  have "NUL \<notin> set (order_request name q)"
    using assms(2) show_int_no_NUL [of "sint q"] by (simp add: order_request_def NUL_def NL_def)
  then have "NUL \<notin> set (take MAX_BUFFER_SIZE (order_request name q))" by (meson in_set_takeD)
  with False unterminated_request show ?thesis by simp
qed

theorem parse_order_roundtrip_witness:
  "\<exists>it. parse_order (overlay (''order tea -7'' @ NL) (zeros MAX_BUFFER_SIZE)) = Some (it, - 7) \<and>
    cstr it = ''tea''"
proof -
  have "order_request ''tea'' (- 7) = ''order tea -7'' @ NL" by code_simp
  then show ?thesis
    using parse_order_roundtrip [of "''tea''" "- 7"]
    by (simp add: NUL_def is_space_def MAX_BUFFER_SIZE_def)
qed

text \<open>
  C13. A session nobody disturbs: one order, \<open>confirm\<close>, delivery. The client is sent the order line,
  the waiting message and the price of what it ordered, leaves, and the shared state is what it
  was before, except for the contents of the static buffer.
\<close>

theorem uncontended_session:
  assumes "t < length (clients s)" and "clients s ! t = new_client"
    and "length (static_restaurant s) = MAX_BUFFER_SIZE"
    and "\<forall>d. person_mutex s d = None" and "\<forall>d. time_mutex s d = None"
    and "next_available_time s (first_free s) + sint (shop_km (item_shop it)) \<le> 30"
  shows "\<exists>c' r. run_events server_step s (session_events t it q) =
      Some (put_client (s\<lparr>static_restaurant := r\<rparr>) t c') \<and> pc c' = Closed \<and>
    map cstr (outbox c') =
      (if 0 < sint q then [item_text it q @ NL] else []) @
      [msg_wait, msg_arrived (item_price it * q)]"
  using assms by (rule uncontended_run)

theorem uncontended_session_witness:
  "\<exists>s c'. run_events server_step (server_start\<lparr>clients := [new_client]\<rparr>) (session_events 0 Tea 3) = Some s \<and>
    clients s = [c'] \<and> pc c' = Closed"
  using uncontended_session [of 0 "server_start\<lparr>clients := [new_client]\<rparr>" Tea 3]
  by (auto simp: server_start_def first_free_def mutex_free_def put_client_def)

text \<open>
  C14. The static buffer of \<open>determine_restaurant\<close> is shared by all threads. If a second client
  sends its first order between the write of the buffer and the copy of it for another client,
  the other client gets the wrong restaurant: it pays nothing for what it ordered, is sent no
  order line, and its distance is that of its own restaurant.
\<close>

theorem static_buffer_race:
  assumes "t < length (clients s)" and "u < length (clients s)" and "t \<noteq> u"
    and "clients s ! t = new_client" and "clients s ! u = new_client"
    and "length (static_restaurant s) = MAX_BUFFER_SIZE" and "item_shop a \<noteq> item_shop b"
  shows "\<exists>s'. run_events server_step s
      [Recv t (order_request (item_name a) p), Recv u (order_request (item_name b) q), Run t] =
      Some s' \<and>
    cstr (restaurant (clients s' ! t)) = shop_name (item_shop b) \<and>
    distance (ord (clients s' ! t)) = shop_km (item_shop a) \<and>
    count (ord (clients s' ! t)) a = p \<and>
    compute_price (ord (clients s' ! t)) (restaurant (clients s' ! t)) = 0 \<and>
    outbox (clients s' ! t) = []"
  using assms by (rule swapped_restaurant)

theorem static_buffer_race_witness:
  "\<exists>s' :: server. reachable server_start server_step s' \<and>
    cstr (restaurant (clients s' ! 0)) = ''Diner'' \<and> count (ord (clients s' ! 0)) Cookie = 2 \<and>
    compute_price (ord (clients s' ! 0)) (restaurant (clients s' ! 0)) = 0"
proof -
  let ?s = "server_start\<lparr>clients := [new_client, new_client]\<rparr>"
  have "run_events server_step server_start [Accept, Accept] = Some ?s"
    by (simp add: server_start_def)
  then have r: "reachable server_start server_step ?s" by (rule run_reachable)
  have "\<exists>s'. run_events server_step ?s [Recv 0 (order_request (item_name Cookie) 2),
      Recv 1 (order_request (item_name FriedRice) 1), Run 0] = Some s' \<and>
    cstr (restaurant (clients s' ! 0)) = shop_name (item_shop FriedRice) \<and>
    distance (ord (clients s' ! 0)) = shop_km (item_shop Cookie) \<and>
    count (ord (clients s' ! 0)) Cookie = 2 \<and>
    compute_price (ord (clients s' ! 0)) (restaurant (clients s' ! 0)) = 0 \<and>
    outbox (clients s' ! 0) = []"
    by (rule static_buffer_race) (simp_all add: server_start_def)
  then obtain s' where s': "run_events server_step ?s [Recv 0 (order_request (item_name Cookie) 2),
      Recv 1 (order_request (item_name FriedRice) 1), Run 0] = Some s'"
    "cstr (restaurant (clients s' ! 0)) = ''Diner''" "count (ord (clients s' ! 0)) Cookie = 2"
    "compute_price (ord (clients s' ! 0)) (restaurant (clients s' ! 0)) = 0"
    by (elim exE conjE) simp
  from reachable_run [OF r s'(1)] s'(2-4) show ?thesis by blast
qed

text \<open>
  C29. The buffers of a thread are overrun by exactly one kind of input: a request of 256 bytes
  without a NUL, read into a buffer that has no room for one (it is printed, hw3.c:175, and searched
  for a string past the end). No other request, answer, order name, quantity or step of the thread
  reads or writes past a buffer. The claim is about buffers: the overflow of an \<open>int\<close> and the unlock
  of a mutex that is not held are not \<open>Undefined\<close> in this model.
\<close>

theorem overrun_only_unterminated:
  assumes "reachable server_start server_step s" and "server_step s e = Some s'"
    and "t < length (clients s)" and "pc (clients s ! t) \<noteq> Undefined"
  shows "pc (clients s' ! t) = Undefined \<longleftrightarrow>
    (\<exists>bytes. e = Recv t bytes \<and> pc (clients s ! t) = Reading \<and>
      length bytes = MAX_BUFFER_SIZE \<and> NUL \<notin> set bytes)"
  using undefined_step [OF reachable_wf [OF assms(1)] assms(2-4)] unterminated_step [of s t _ s'] assms(2,3)
  by blast

theorem overrun_only_unterminated_witness:
  "\<exists>s bytes s'. reachable server_start server_step s \<and> server_step s (Recv 0 bytes) = Some s' \<and>
    pc (clients s' ! 0) = Undefined \<and> length bytes = MAX_BUFFER_SIZE \<and> NUL \<notin> set bytes"
proof -
  let ?s = "server_start\<lparr>clients := [new_client]\<rparr>" and ?b = "replicate 256 (CHR ''x'')"
  have "run_events server_step server_start [Accept] = Some ?s" by (simp add: server_start_def)
  then have r: "reachable server_start server_step ?s" by (rule run_reachable)
  have b: "length ?b = MAX_BUFFER_SIZE" "NUL \<notin> set ?b" by (simp_all add: MAX_BUFFER_SIZE_def NUL_def)
  obtain s' where s': "server_step ?s (Recv 0 ?b) = Some s'"
    by (simp add: recv_step_def MAX_BUFFER_SIZE_def split: prod.splits)
  from overrun_only_unterminated [OF r s', of 0] b have "pc (clients s' ! 0) = Undefined" by simp
  with r s' b show ?thesis by blast
qed

text \<open>
  What the claim leaves out: the price of 2147483647 cookies does not fit an \<open>int\<close>. In C the
  multiplication is undefined; with wrap-around the client is asked for a negative amount.
\<close>

lemma price_overflows:
  "compute_price (empty_order\<lparr>total_cookie := 2147483647\<rparr>) ''Dessert shop'' = - 60"
  by code_simp

end
