(* ===== verification/Lab6_Bank.thy ===== *)
theory Lab6_Bank
  imports CLib Pthread
begin

text \<open>
  The account server and its client, \<open>lab6/server.c\<close> and \<open>lab6/client.c\<close>, as a transition system.
  The main thread accepts connections and registers each in the tables of 100 slots; every
  client has a thread that reads one request and carries it out a number of times. One mutex
  protects the tables and the balance.

  A step moves one thread from one program point to the next and touches shared memory at most
  once, so the load and the store of \<open>account_balance += amount\<close> are separate steps. The history
  variable \<open>ledger\<close> lists the operations in the order in which they took effect; no step reads it.
  \<open>console\<close> is the standard output, line by line; what \<open>perror\<close> writes goes elsewhere and is not
  modelled.
\<close>

section \<open>State\<close>

definition MAX_CLIENTS :: nat where "MAX_CLIENTS = 100"

definition BUFFER_SIZE :: nat where "BUFFER_SIZE = 256"

datatype bank_tid = MainThread | Worker nat

datatype bank_op = Deposit c_int | Withdraw c_int

datatype worker_pc =
    WStart
  | WReading
  | WLocking
  | WChoosing
  | WAdding
  | WComparing
  | WSubtracting
  | WStoring c_int
  | WPrinting
  | WRefused
  | WUnlocking
  | WClosing
  | WClosed
  | WUndefined

record worker =
  w_pc :: worker_pc
  w_socket :: int
  w_operation :: "char list"
  w_amount :: c_int
  w_times :: c_int
  w_i :: int

datatype main_pc = MAccepting | MLocking int | MRegistering int | MUnlocking

text \<open>How far \<open>handle_sigint\<close> has come, if the process was interrupted.\<close>

datatype shutdown = NoSignal | CloseListener int | CloseClient nat | DestroyMutex

record bank =
  account_balance :: c_int
  bank_mutex :: "bank_tid mutex"
  client_sockets :: "int list"
  num_clients :: nat
  workers :: "worker list"
  main_pc :: main_pc
  console :: "char list list"
  closed_sockets :: "int list"
  shutdown_at :: shutdown
  bank_exited :: bool
  ledger :: "(nat \<times> bank_op) list"

definition new_worker :: worker where
  "new_worker = \<lparr>w_pc = WStart, w_socket = 0, w_operation = [], w_amount = 0, w_times = 0, w_i = 0\<rparr>"

definition msg_listening :: "char list" where
  "msg_listening = ''Server listening on port 8888'' @ [CHR 0x0A]"

definition msg_connected :: "char list" where
  "msg_connected = ''Client connected'' @ [CHR 0x0A]"

definition msg_full :: "char list" where
  "msg_full = ''Maximum clients reached. Connection rejected.'' @ [CHR 0x0A]"

definition msg_shutdown :: "char list" where
  "msg_shutdown = ''Shutting down server...'' @ [CHR 0x0A]"

text \<open>The state in which \<open>main\<close> enters its loop: it has just reported the port.\<close>

definition bank_start :: bank where
  "bank_start = \<lparr>account_balance = 0, bank_mutex = mutex_free,
    client_sockets = replicate MAX_CLIENTS 0, num_clients = 0, workers = [],
    main_pc = MAccepting, console = [msg_listening], closed_sockets = [], shutdown_at = NoSignal,
    bank_exited = False, ledger = []\<rparr>"

section \<open>One client: \<open>handle_client\<close>\<close>

text \<open>
  \<open>read\<close> of at most 255 bytes, the NUL after them, and \<open>sscanf (buffer, "%s %d %d", \<dots>)\<close> into
  \<open>operation[20]\<close>, \<open>amount\<close> and \<open>times\<close>, none of them initialised: a word of 20 or more characters
  overruns the array, and a request with fewer than three fields leaves \<open>times\<close> indeterminate.
\<close>

definition read_request :: "worker \<Rightarrow> char list \<Rightarrow> worker" where
  "read_request c bytes =
    (if bytes = [] then c\<lparr>w_pc := WClosing\<rparr>
     else case sscanf [Percent_s, Space, Percent_d, Space, Percent_d] (cstr (bytes @ [NUL])) of
         ConvS w # ConvD a # ConvD n # _ \<Rightarrow>
           (if length w < 20
            then c\<lparr>w_operation := w, w_amount := a, w_times := n, w_i := 0,
              w_pc := (if 0 < sint n then WLocking else WClosing)\<rparr>
            else c\<lparr>w_pc := WUndefined\<rparr>)
       | _ \<Rightarrow> c\<lparr>w_pc := WUndefined\<rparr>)"

definition msg_deposited :: "c_int \<Rightarrow> char list" where
  "msg_deposited b = ''Deposited '' @ show_int (sint b) @ [CHR 0x0A]"

definition msg_withdrew :: "c_int \<Rightarrow> char list" where
  "msg_withdrew b = ''Withdrew '' @ show_int (sint b) @ [CHR 0x0A]"

definition msg_refused :: "c_int \<Rightarrow> c_int \<Rightarrow> char list" where
  "msg_refused a b = ''Withdrawal of '' @ show_int (sint a) @
    '' failed, insufficient funds. Current balance: '' @ show_int (sint b) @ [CHR 0x0A]"

definition is_deposit :: "worker \<Rightarrow> bool" where
  "is_deposit c \<longleftrightarrow> strcmp_eq (w_operation c) ''deposit''"

definition is_withdraw :: "worker \<Rightarrow> bool" where
  "is_withdraw c \<longleftrightarrow> \<not> is_deposit c \<and> strcmp_eq (w_operation c) ''withdraw''"

definition worker_op :: "worker \<Rightarrow> bank_op" where
  "worker_op c = (if is_deposit c then Deposit (w_amount c) else Withdraw (w_amount c))"

definition worker_step :: "bank \<Rightarrow> nat \<Rightarrow> worker \<Rightarrow> (bank \<times> worker) option" where
  "worker_step s t c =
    (case w_pc c of
       WStart \<Rightarrow> Some (s, c\<lparr>w_socket := client_sockets s ! t, w_pc := WReading\<rparr>)
     | WLocking \<Rightarrow>
         map_option (\<lambda>m. (s\<lparr>bank_mutex := m\<rparr>, c\<lparr>w_pc := WChoosing\<rparr>))
           (mutex_lock (bank_mutex s) (Worker t))
     | WChoosing \<Rightarrow>
         Some (s, c\<lparr>w_pc := (if is_deposit c then WAdding
                             else if is_withdraw c then WComparing else WUnlocking)\<rparr>)
     | WAdding \<Rightarrow> Some (s, c\<lparr>w_pc := WStoring (account_balance s + w_amount c)\<rparr>)
     | WComparing \<Rightarrow>
         (if sint (w_amount c) \<le> sint (account_balance s)
          then Some (s, c\<lparr>w_pc := WSubtracting\<rparr>)
          else Some (s\<lparr>ledger := ledger s @ [(t, worker_op c)]\<rparr>, c\<lparr>w_pc := WRefused\<rparr>))
     | WSubtracting \<Rightarrow> Some (s, c\<lparr>w_pc := WStoring (account_balance s - w_amount c)\<rparr>)
     | WStoring v \<Rightarrow>
         Some (s\<lparr>account_balance := v, ledger := ledger s @ [(t, worker_op c)]\<rparr>,
           c\<lparr>w_pc := WPrinting\<rparr>)
     | WPrinting \<Rightarrow>
         Some (s\<lparr>console := console s @
             [if is_deposit c then msg_deposited (account_balance s)
              else msg_withdrew (account_balance s)]\<rparr>, c\<lparr>w_pc := WUnlocking\<rparr>)
     | WRefused \<Rightarrow>
         Some (s\<lparr>console := console s @ [msg_refused (w_amount c) (account_balance s)]\<rparr>,
           c\<lparr>w_pc := WUnlocking\<rparr>)
     | WUnlocking \<Rightarrow>
         Some (s\<lparr>bank_mutex := mutex_unlock (bank_mutex s)\<rparr>,
           c\<lparr>w_i := w_i c + 1,
             w_pc := (if w_i c + 1 < sint (w_times c) then WLocking else WClosing)\<rparr>)
     | WClosing \<Rightarrow>
         Some (s\<lparr>closed_sockets := closed_sockets s @ [w_socket c]\<rparr>, c\<lparr>w_pc := WClosed\<rparr>)
     | _ \<Rightarrow> None)"

section \<open>The main thread: the loop of \<open>main\<close> and \<open>handle_sigint\<close>\<close>

text \<open>
  The registration holds the mutex. A connection beyond the table is closed; if the thread cannot
  be created the slot is used again by the next connection and the socket stays open.
\<close>

definition register :: "bank \<Rightarrow> int \<Rightarrow> bool \<Rightarrow> bank" where
  "register s fd created =
    (if num_clients s < MAX_CLIENTS
     then (let s1 = s\<lparr>client_sockets := (client_sockets s)[num_clients s := fd]\<rparr>
           in if created
              then s1\<lparr>workers := workers s1 @ [new_worker], num_clients := num_clients s1 + 1,
                console := console s1 @ [msg_connected]\<rparr>
              else s1)
     else s\<lparr>console := console s @ [msg_full], closed_sockets := closed_sockets s @ [fd]\<rparr>)\<lparr>main_pc := MUnlocking\<rparr>"

definition main_step :: "bank \<Rightarrow> bool \<Rightarrow> bank option" where
  "main_step s created =
    (case main_pc s of
       MLocking fd \<Rightarrow>
         map_option (\<lambda>m. s\<lparr>bank_mutex := m, main_pc := MRegistering fd\<rparr>)
           (mutex_lock (bank_mutex s) MainThread)
     | MRegistering fd \<Rightarrow> Some (register s fd created)
     | MUnlocking \<Rightarrow> Some (s\<lparr>bank_mutex := mutex_unlock (bank_mutex s), main_pc := MAccepting\<rparr>)
     | MAccepting \<Rightarrow> None)"

text \<open>
  The handler prints its line, closes the listener, then one client socket after the other, and
  destroys the mutex and leaves. It runs on whatever thread took the signal; the other threads go
  on meanwhile. A second interrupt during the handler is not modelled.
\<close>

definition handle_sigint :: "bank \<Rightarrow> int \<Rightarrow> bank option" where
  "handle_sigint s server_fd =
    (if shutdown_at s = NoSignal
     then Some (s\<lparr>console := console s @ [msg_shutdown], shutdown_at := CloseListener server_fd\<rparr>)
     else None)"

definition shutdown_step :: "bank \<Rightarrow> bank option" where
  "shutdown_step s =
    (case shutdown_at s of
       NoSignal \<Rightarrow> None
     | CloseListener server_fd \<Rightarrow>
         Some (s\<lparr>closed_sockets := closed_sockets s @ [server_fd], shutdown_at := CloseClient 0\<rparr>)
     | CloseClient i \<Rightarrow>
         (if i < num_clients s
          then Some (s\<lparr>closed_sockets := closed_sockets s @ [client_sockets s ! i],
            shutdown_at := CloseClient (i + 1)\<rparr>)
          else Some (s\<lparr>shutdown_at := DestroyMutex\<rparr>))
     | DestroyMutex \<Rightarrow> Some (s\<lparr>bank_exited := True\<rparr>))"

text \<open>
  Events: \<open>accept\<close> returns a socket or fails, the main thread makes a step (with the outcome of
  \<open>pthread_create\<close> where it creates one), bytes arrive for a worker, a worker makes a step, the
  process is interrupted, the handler makes a step.
\<close>

datatype bank_event =
    Accepted int | AcceptError | MainStep bool | Receive nat "char list" | WorkerStep nat | Sigint int
  | ShutdownStep

definition put_worker :: "bank \<Rightarrow> nat \<Rightarrow> worker \<Rightarrow> bank" where
  "put_worker s t c = s\<lparr>workers := (workers s)[t := c]\<rparr>"

fun bank_event_step :: "bank \<Rightarrow> bank_event \<Rightarrow> bank option" where
  "bank_event_step s (Accepted fd) =
    (if main_pc s = MAccepting then Some (s\<lparr>main_pc := MLocking fd\<rparr>) else None)"
| "bank_event_step s AcceptError = (if main_pc s = MAccepting then Some s else None)"
| "bank_event_step s (MainStep created) = main_step s created"
| "bank_event_step s (Receive t bytes) =
    (if t < length (workers s) \<and> w_pc (workers s ! t) = WReading \<and> length bytes \<le> BUFFER_SIZE - 1
     then Some (put_worker s t (read_request (workers s ! t) bytes)) else None)"
| "bank_event_step s (WorkerStep t) =
    (if t < length (workers s)
     then map_option (\<lambda>(s', c). put_worker s' t c) (worker_step s t (workers s ! t)) else None)"
| "bank_event_step s (Sigint fd) = handle_sigint s fd"
| "bank_event_step s ShutdownStep = shutdown_step s"

definition bank_step :: "bank \<Rightarrow> bank_event \<Rightarrow> bank option" where
  "bank_step s e = (if bank_exited s then None else bank_event_step s e)"

section \<open>The client program\<close>

text \<open>
  \<open>main\<close> of the client after the check of \<open>argc\<close>: the request it builds from the arguments
  \<open>argv[3]\<close>, \<open>argv[4]\<close>, \<open>argv[5]\<close> and sends (\<open>strlen\<close> bytes).
\<close>

definition client_request :: "char list \<Rightarrow> char list \<Rightarrow> char list \<Rightarrow> char list" where
  "client_request operation amount_arg times_arg =
    cstr (snprintf_at (zeros BUFFER_SIZE) 0 BUFFER_SIZE
      (operation @ '' '' @ show_int (sint (atoi amount_arg)) @ '' '' @ show_int (sint (atoi times_arg))))"

section \<open>The specification: an account with atomic operations\<close>

fun apply_op :: "c_int \<Rightarrow> bank_op \<Rightarrow> c_int" where
  "apply_op b (Deposit a) = b + a"
| "apply_op b (Withdraw a) = (if sint a \<le> sint b then b - a else b)"

definition replay :: "c_int \<Rightarrow> bank_op list \<Rightarrow> c_int" where
  "replay b ops = foldl apply_op b ops"

definition account_step :: "c_int \<Rightarrow> bank_op \<Rightarrow> c_int option" where
  "account_step b op = Some (apply_op b op)"

text \<open>The line the server prints for one operation, and for a list of them.\<close>

fun op_message :: "c_int \<Rightarrow> bank_op \<Rightarrow> char list" where
  "op_message b (Deposit a) = msg_deposited (b + a)"
| "op_message b (Withdraw a) = (if sint a \<le> sint b then msg_withdrew (b - a) else msg_refused a b)"

fun statement :: "c_int \<Rightarrow> bank_op list \<Rightarrow> char list list" where
  "statement b [] = []"
| "statement b (op # ops) = op_message b op # statement (apply_op b op) ops"

text \<open>The lines about the account, as against those about connections and the process itself.\<close>

definition account_line :: "char list \<Rightarrow> bool" where
  "account_line l \<longleftrightarrow> l \<noteq> msg_listening \<and> l \<noteq> msg_connected \<and> l \<noteq> msg_full \<and> l \<noteq> msg_shutdown"

end
