(* ===== verification/Lab6_Invariants.thy ===== *)
theory Lab6_Invariants
  imports Lab6_Bank
begin

text \<open>
  The invariants of the account server: who holds the mutex, what a thread has read is still in
  memory, the balance is the replay of the ledger, the lines about the account on the console are
  its statement, and the other lines tell how many clients were connected and whether the server
  is shutting down.
\<close>

section \<open>Replays\<close>

lemma replay_simps [simp]:
  "replay b [] = b" "replay b (op # ops) = replay (apply_op b op) ops"
  by (simp_all add: replay_def)

lemma replay_append [simp]: "replay b (xs @ ys) = replay (replay b xs) ys"
  by (simp add: replay_def)

lemma statement_append [simp]:
  "statement b (xs @ ys) = statement b xs @ statement (replay b xs) ys"
  by (induction xs arbitrary: b) simp_all

section \<open>Who holds the mutex\<close>

fun worker_section :: "worker_pc \<Rightarrow> bool" where
  "worker_section WChoosing \<longleftrightarrow> True"
| "worker_section WAdding \<longleftrightarrow> True"
| "worker_section WComparing \<longleftrightarrow> True"
| "worker_section WSubtracting \<longleftrightarrow> True"
| "worker_section (WStoring v) \<longleftrightarrow> True"
| "worker_section WPrinting \<longleftrightarrow> True"
| "worker_section WRefused \<longleftrightarrow> True"
| "worker_section WUnlocking \<longleftrightarrow> True"
| "worker_section _ \<longleftrightarrow> False"

fun main_section :: "main_pc \<Rightarrow> bool" where
  "main_section (MRegistering fd) \<longleftrightarrow> True"
| "main_section MUnlocking \<longleftrightarrow> True"
| "main_section _ \<longleftrightarrow> False"

fun bank_inside :: "bank \<Rightarrow> bank_tid \<Rightarrow> bool" where
  "bank_inside s MainThread \<longleftrightarrow> main_section (main_pc s)"
| "bank_inside s (Worker t) \<longleftrightarrow> t < length (workers s) \<and> worker_section (w_pc (workers s ! t))"

definition bank_lock_inv :: "bank \<Rightarrow> bool" where
  "bank_lock_inv s \<longleftrightarrow> (\<forall>x. bank_inside s x \<longleftrightarrow> bank_mutex s = Some x)"

text \<open>Every step is one of these; in each case what the rest of the state keeps is simple.\<close>

lemma bank_step_cases:
  assumes "bank_step s e = Some s'"
  obtains (accepted) fd where "main_pc s = MAccepting" "s' = s\<lparr>main_pc := MLocking fd\<rparr>"
    | (idle) "s' = s"
    | (lock) fd where "main_pc s = MLocking fd" "bank_mutex s = None"
        "s' = s\<lparr>bank_mutex := Some MainThread, main_pc := MRegistering fd\<rparr>"
    | (register) fd created where "main_pc s = MRegistering fd" "s' = register s fd created"
    | (unlock) "main_pc s = MUnlocking" "s' = s\<lparr>bank_mutex := None, main_pc := MAccepting\<rparr>"
    | (receive) t bytes where "t < length (workers s)" "w_pc (workers s ! t) = WReading"
        "s' = put_worker s t (read_request (workers s ! t) bytes)"
    | (work) t s1 c1 where "t < length (workers s)"
        "worker_step s t (workers s ! t) = Some (s1, c1)" "s' = put_worker s1 t c1"
    | (sigint) fd where "shutdown_at s = NoSignal"
        "s' = s\<lparr>console := console s @ [msg_shutdown], shutdown_at := CloseListener fd\<rparr>"
    | (shutdown) xs c b where "shutdown_at s \<noteq> NoSignal" "c \<noteq> NoSignal"
        "s' = s\<lparr>closed_sockets := xs, shutdown_at := c, bank_exited := b\<rparr>"
proof -
  from assms have step: "bank_event_step s e = Some s'" by (simp add: bank_step_def split: if_splits)
  show ?thesis
  proof (cases e)
    case (Accepted fd)
    with step show ?thesis by (intro accepted [of fd]) (simp_all split: if_splits)
  next
    case AcceptError
    with step show ?thesis by (intro idle) (simp split: if_splits)
  next
    case (MainStep created)
    show ?thesis
    proof (cases "main_pc s")
      case (MLocking fd)
      with MainStep step show ?thesis by (intro lock [of fd]) (auto simp: main_step_def)
    next
      case (MRegistering fd)
      with MainStep step show ?thesis by (intro register [of fd created]) (auto simp: main_step_def)
    next
      case MUnlocking
      with MainStep step show ?thesis by (intro unlock) (auto simp: main_step_def)
    qed (use MainStep step in \<open>simp add: main_step_def\<close>)
  next
    case (Receive t bytes)
    with step show ?thesis by (intro receive [of t bytes]) (simp_all split: if_splits)
  next
    case (WorkerStep t)
    with step obtain s1 c1 where "t < length (workers s)"
      "worker_step s t (workers s ! t) = Some (s1, c1)" "s' = put_worker s1 t c1"
      by (auto split: if_splits)
    then show ?thesis by (rule work)
  next
    case (Sigint fd)
    with step show ?thesis by (intro sigint [of fd]) (simp_all add: handle_sigint_def split: if_splits)
  next
    case ShutdownStep
    with step have "shutdown_step s = Some s'" by simp
    then show ?thesis
    proof (cases "shutdown_at s")
      case (CloseListener fd)
      with \<open>shutdown_step s = Some s'\<close> show ?thesis
        by (intro shutdown [where c = "CloseClient 0" and xs = "closed_sockets s @ [fd]" and b = "bank_exited s"])
          (auto simp: shutdown_step_def)
    next
      case (CloseClient i)
      with \<open>shutdown_step s = Some s'\<close> show ?thesis
        by (intro shutdown [where c = "shutdown_at s'" and xs = "closed_sockets s'" and b = "bank_exited s"])
          (auto simp: shutdown_step_def split: if_splits)
    next
      case DestroyMutex
      with \<open>shutdown_step s = Some s'\<close> show ?thesis
        by (intro shutdown [where c = DestroyMutex and xs = "closed_sockets s" and b = True]) (auto simp: shutdown_step_def)
    qed (simp add: shutdown_step_def)
  qed
qed

lemma worker_step_frame:
  assumes "worker_step s t c = Some (s1, c1)"
  shows "workers s1 = workers s" and "main_pc s1 = main_pc s"
    and "num_clients s1 = num_clients s" and "client_sockets s1 = client_sockets s"
  using assms by (cases "w_pc c"; force simp: worker_step_def split: if_splits)+

lemma read_request_pc:
  "w_pc (read_request c bytes) \<in> {WClosing, WLocking, WUndefined}"
  by (auto simp: read_request_def split: list.splits conversion.splits)

lemma read_request_section [simp]: "\<not> worker_section (w_pc (read_request c bytes))"
  using read_request_pc [of c bytes] by auto

lemma new_worker_pc [simp]: "w_pc new_worker = WStart"
  by (simp add: new_worker_def)

lemma put_worker_frame [simp]:
  "account_balance (put_worker s t c) = account_balance s"
  "bank_mutex (put_worker s t c) = bank_mutex s"
  "client_sockets (put_worker s t c) = client_sockets s"
  "num_clients (put_worker s t c) = num_clients s"
  "workers (put_worker s t c) = (workers s)[t := c]"
  "main_pc (put_worker s t c) = main_pc s"
  "console (put_worker s t c) = console s"
  "ledger (put_worker s t c) = ledger s"
  by (simp_all add: put_worker_def)

lemma register_frame [simp]:
  "account_balance (register s fd b) = account_balance s"
  "bank_mutex (register s fd b) = bank_mutex s"
  "main_pc (register s fd b) = MUnlocking"
  "shutdown_at (register s fd b) = shutdown_at s"
  "ledger (register s fd b) = ledger s"
  by (simp_all add: register_def Let_def)

lemma register_console:
  "console (register s fd b) = console s @
    (if num_clients s < MAX_CLIENTS then if b then [msg_connected] else [] else [msg_full])"
  by (simp add: register_def Let_def)

lemma register_workers:
  "workers (register s fd b) =
    workers s @ (if num_clients s < MAX_CLIENTS \<and> b then [new_worker] else [])"
  "num_clients (register s fd b) =
    num_clients s + (if num_clients s < MAX_CLIENTS \<and> b then 1 else 0)"
  by (simp_all add: register_def Let_def)

text \<open>The mutex moves with the section of the worker that makes the step.\<close>

lemma worker_step_mutex:
  assumes "worker_step s t c = Some (s1, c1)"
    and "worker_section (w_pc c) \<longleftrightarrow> bank_mutex s = Some (Worker t)"
  shows "worker_section (w_pc c1) \<longleftrightarrow> bank_mutex s1 = Some (Worker t)"
    and "x \<noteq> Worker t \<Longrightarrow> bank_mutex s1 = Some x \<longleftrightarrow> bank_mutex s = Some x"
proof -
  have "(worker_section (w_pc c1) \<longleftrightarrow> bank_mutex s1 = Some (Worker t)) \<and>
    (\<forall>x. x \<noteq> Worker t \<longrightarrow> (bank_mutex s1 = Some x \<longleftrightarrow> bank_mutex s = Some x))"
    using assms by (cases "w_pc c") (auto simp: worker_step_def split: if_split_asm)
  then show "worker_section (w_pc c1) \<longleftrightarrow> bank_mutex s1 = Some (Worker t)"
    and "x \<noteq> Worker t \<Longrightarrow> bank_mutex s1 = Some x \<longleftrightarrow> bank_mutex s = Some x" by blast+
qed

lemma bank_lock_work:
  assumes "bank_lock_inv s" and "t < length (workers s)"
    and "worker_step s t (workers s ! t) = Some (s1, c1)"
  shows "bank_lock_inv (put_worker s1 t c1)"
proof -
  note f = worker_step_frame [OF assms(3)]
  have "worker_section (w_pc (workers s ! t)) \<longleftrightarrow> bank_mutex s = Some (Worker t)"
    using assms(1) [unfolded bank_lock_inv_def, rule_format, of "Worker t"] assms(2) by simp
  note m = worker_step_mutex [OF assms(3) this]
  show ?thesis unfolding bank_lock_inv_def
  proof
    fix x
    show "bank_inside (put_worker s1 t c1) x \<longleftrightarrow> bank_mutex (put_worker s1 t c1) = Some x"
    proof (cases "x = Worker t")
      case True
      then show ?thesis using m(1) assms(2) f by simp
    next
      case False
      then have "bank_inside (put_worker s1 t c1) x = bank_inside s x"
        using f by (cases x) auto
      then show ?thesis using m(2) [OF False] assms(1) by (simp add: bank_lock_inv_def)
    qed
  qed
qed

lemma bank_inside_other:
  "workers s1 = workers s \<Longrightarrow> main_pc s1 = main_pc s \<Longrightarrow> bank_inside s1 x = bank_inside s x"
  by (cases x) simp_all

lemma bank_lock_main:
  assumes "bank_lock_inv s" and "workers s1 = workers s"
    and "main_section (main_pc s1) \<longleftrightarrow> bank_mutex s1 = Some MainThread"
    and "bank_mutex s1 = bank_mutex s \<or> bank_mutex s1 \<in> {None, Some MainThread} \<and>
      bank_mutex s \<in> {None, Some MainThread}"
  shows "bank_lock_inv s1"
  unfolding bank_lock_inv_def
proof
  fix x
  have x: "bank_inside s x \<longleftrightarrow> bank_mutex s = Some x" using assms(1) by (simp add: bank_lock_inv_def)
  show "bank_inside s1 x \<longleftrightarrow> bank_mutex s1 = Some x"
  proof (cases x)
    case MainThread
    then show ?thesis using assms(3) by simp
  next
    case (Worker t)
    then show ?thesis using assms(2,4) x by auto
  qed
qed

lemma bank_lock_step:
  assumes inv: "bank_lock_inv s" and step: "bank_step s e = Some s'"
  shows "bank_lock_inv s'"
proof -
  have m: "main_section (main_pc s) \<longleftrightarrow> bank_mutex s = Some MainThread"
    using inv [unfolded bank_lock_inv_def, rule_format, of MainThread] by simp
  from step show ?thesis
  proof (cases rule: bank_step_cases)
    case (register fd created)
    show ?thesis unfolding bank_lock_inv_def
    proof
      fix x
      have "bank_inside s x \<longleftrightarrow> bank_mutex s = Some x" using inv by (simp add: bank_lock_inv_def)
      then show "bank_inside s' x \<longleftrightarrow> bank_mutex s' = Some x"
        using register by (cases x) (auto simp: register_workers nth_append)
    qed
  next
    case (receive t bytes)
    show ?thesis unfolding bank_lock_inv_def
    proof
      fix x
      have "bank_inside s x \<longleftrightarrow> bank_mutex s = Some x" using inv by (simp add: bank_lock_inv_def)
      then show "bank_inside s' x \<longleftrightarrow> bank_mutex s' = Some x"
        using receive by (cases x) (auto simp: nth_list_update)
    qed
  next
    case (work t s1 c1)
    then show ?thesis using bank_lock_work [OF inv] by simp
  qed (use inv m in \<open>auto intro: bank_lock_main [OF inv]\<close>)
qed

interpretation lab6_mutex: lock_discipline bank_start bank_step bank_lock_inv bank_mutex bank_inside
proof unfold_locales
  show "bank_lock_inv bank_start"
    unfolding bank_lock_inv_def
  proof
    fix x show "bank_inside bank_start x \<longleftrightarrow> bank_mutex bank_start = Some x"
      by (cases x) (simp_all add: bank_start_def mutex_free_def)
  qed
qed (blast intro: bank_lock_step, simp add: bank_lock_inv_def)

section \<open>The ledger\<close>

definition ops :: "bank \<Rightarrow> bank_op list" where
  "ops s = map snd (ledger s)"

text \<open>What a thread knows inside the section: nobody else changes the balance meanwhile.\<close>

fun worker_ok :: "c_int \<Rightarrow> worker_pc \<Rightarrow> worker \<Rightarrow> bool" where
  "worker_ok b WAdding c \<longleftrightarrow> is_deposit c"
| "worker_ok b WComparing c \<longleftrightarrow> is_withdraw c"
| "worker_ok b WSubtracting c \<longleftrightarrow> is_withdraw c \<and> sint (w_amount c) \<le> sint b"
| "worker_ok b (WStoring v) c \<longleftrightarrow>
    (is_deposit c \<or> is_withdraw c \<and> sint (w_amount c) \<le> sint b) \<and> v = apply_op b (worker_op c)"
| "worker_ok b WPrinting c \<longleftrightarrow> is_deposit c \<or> is_withdraw c"
| "worker_ok b WRefused c \<longleftrightarrow> is_withdraw c \<and> sint b < sint (w_amount c)"
| "worker_ok b _ c \<longleftrightarrow> True"

text \<open>The line that the holder of the mutex has still to print.\<close>

fun pending_line :: "c_int \<Rightarrow> worker_pc \<Rightarrow> worker \<Rightarrow> char list list" where
  "pending_line b WPrinting c = [if is_deposit c then msg_deposited b else msg_withdrew b]"
| "pending_line b WRefused c = [msg_refused (w_amount c) b]"
| "pending_line b _ c = []"

definition pending :: "bank \<Rightarrow> char list list" where
  "pending s = (case bank_mutex s of
     Some (Worker t) \<Rightarrow> pending_line (account_balance s) (w_pc (workers s ! t)) (workers s ! t)
   | _ \<Rightarrow> [])"

definition bank_data :: "bank \<Rightarrow> bool" where
  "bank_data s \<longleftrightarrow> account_balance s = replay 0 (ops s) \<and>
    filter account_line (console s) @ pending s = statement 0 (ops s) \<and>
    (\<forall>t < length (workers s).
      worker_ok (account_balance s) (w_pc (workers s ! t)) (workers s ! t))"

definition bank_inv :: "bank \<Rightarrow> bool" where
  "bank_inv s \<longleftrightarrow> bank_lock_inv s \<and> bank_data s"

lemma account_line_simps [simp]:
  "account_line (msg_deposited b)" "account_line (msg_withdrew b)" "account_line (msg_refused a b)"
  "\<not> account_line msg_listening" "\<not> account_line msg_connected" "\<not> account_line msg_full"
  "\<not> account_line msg_shutdown"
  by (simp_all add: account_line_def msg_deposited_def msg_withdrew_def msg_refused_def
      msg_listening_def msg_connected_def msg_full_def msg_shutdown_def)

lemma worker_ok_outside: "\<not> worker_section p \<Longrightarrow> worker_ok b p c"
  by (cases p) simp_all

lemma pending_line_outside: "\<not> worker_section p \<Longrightarrow> pending_line b p c = []"
  by (cases p) simp_all

lemma worker_op_simps [simp]:
  "is_deposit (c\<lparr>w_pc := p\<rparr>) = is_deposit c" "is_withdraw (c\<lparr>w_pc := p\<rparr>) = is_withdraw c"
  "worker_op (c\<lparr>w_pc := p\<rparr>) = worker_op c"
  "is_deposit (c\<lparr>w_i := i\<rparr>) = is_deposit c" "is_withdraw (c\<lparr>w_i := i\<rparr>) = is_withdraw c"
  "worker_op (c\<lparr>w_i := i\<rparr>) = worker_op c"
  "is_deposit (c\<lparr>w_socket := k\<rparr>) = is_deposit c" "is_withdraw (c\<lparr>w_socket := k\<rparr>) = is_withdraw c"
  "worker_op (c\<lparr>w_socket := k\<rparr>) = worker_op c"
  "is_deposit c \<Longrightarrow> worker_op c = Deposit (w_amount c)"
  "is_withdraw c \<Longrightarrow> worker_op c = Withdraw (w_amount c)"
  "is_withdraw c \<Longrightarrow> \<not> is_deposit c"
  by (simp_all add: is_deposit_def is_withdraw_def worker_op_def)

text \<open>One step of a worker, on its own data.\<close>

lemma worker_step_data:
  assumes "worker_step s t c = Some (s1, c1)" and "worker_ok (account_balance s) (w_pc c) c"
  shows "worker_ok (account_balance s1) (w_pc c1) c1"
    and "\<exists>new. ledger s1 = ledger s @ map (Pair t) new \<and>
      account_balance s1 = replay (account_balance s) new \<and>
      filter account_line (console s1) @ pending_line (account_balance s1) (w_pc c1) c1 =
        filter account_line (console s) @ pending_line (account_balance s) (w_pc c) c @ statement (account_balance s) new"
    and "\<not> worker_section (w_pc c) \<Longrightarrow> account_balance s1 = account_balance s \<and>
      ledger s1 = ledger s \<and> console s1 = console s \<and> pending_line b (w_pc c1) c1 = []"
proof -
  let ?new = "case w_pc c of WStoring v \<Rightarrow> [worker_op c]
    | WComparing \<Rightarrow> (if sint (w_amount c) \<le> sint (account_balance s) then [] else [worker_op c])
    | _ \<Rightarrow> []"
  have "worker_ok (account_balance s1) (w_pc c1) c1 \<and>
    ledger s1 = ledger s @ map (Pair t) ?new \<and>
    account_balance s1 = replay (account_balance s) ?new \<and>
    filter account_line (console s1) @ pending_line (account_balance s1) (w_pc c1) c1 =
      filter account_line (console s) @ pending_line (account_balance s) (w_pc c) c @ statement (account_balance s) ?new \<and>
    (\<not> worker_section (w_pc c) \<longrightarrow> account_balance s1 = account_balance s \<and>
      ledger s1 = ledger s \<and> console s1 = console s \<and> pending_line b (w_pc c1) c1 = [])"
  proof (cases "w_pc c")
    case (WStoring v)
    with assms show ?thesis by (cases "is_deposit c") (auto simp: worker_step_def)
  qed (use assms in \<open>auto simp: worker_step_def split: if_splits\<close>)
  then show "worker_ok (account_balance s1) (w_pc c1) c1"
    and "\<exists>new. ledger s1 = ledger s @ map (Pair t) new \<and>
      account_balance s1 = replay (account_balance s) new \<and>
      filter account_line (console s1) @ pending_line (account_balance s1) (w_pc c1) c1 =
        filter account_line (console s) @ pending_line (account_balance s) (w_pc c) c @ statement (account_balance s) new"
    and "\<not> worker_section (w_pc c) \<Longrightarrow> account_balance s1 = account_balance s \<and>
      ledger s1 = ledger s \<and> console s1 = console s \<and> pending_line b (w_pc c1) c1 = []"
    by blast+
qed

lemma pending_work:
  assumes "bank_lock_inv s" and "t < length (workers s)"
    and "worker_step s t (workers s ! t) = Some (s1, c1)"
  shows "worker_section (w_pc (workers s ! t)) \<Longrightarrow>
      pending s = pending_line (account_balance s) (w_pc (workers s ! t)) (workers s ! t) \<and>
      pending (put_worker s1 t c1) = pending_line (account_balance s1) (w_pc c1) c1"
    and "\<not> worker_section (w_pc (workers s ! t)) \<Longrightarrow>
      pending (put_worker s1 t c1) = pending s"
proof -
  let ?c = "workers s ! t"
  note f = worker_step_frame [OF assms(3)]
  have sec: "worker_section (w_pc ?c) \<longleftrightarrow> bank_mutex s = Some (Worker t)"
    using assms(1) [unfolded bank_lock_inv_def, rule_format, of "Worker t"] assms(2) by simp
  note m = worker_step_mutex [OF assms(3) sec]
  show "pending s = pending_line (account_balance s) (w_pc ?c) ?c \<and>
      pending (put_worker s1 t c1) = pending_line (account_balance s1) (w_pc c1) c1"
    if "worker_section (w_pc ?c)"
  proof -
    have mt: "bank_mutex s = Some (Worker t)" using that sec by simp
    then have "bank_mutex s1 = Some x \<Longrightarrow> x = Worker t" for x using m(2) by (cases "x = Worker t") auto
    then have "bank_mutex s1 = Some (Worker t) \<or> bank_mutex s1 = None" by (cases "bank_mutex s1") auto
    then show ?thesis
      using mt m(1) f assms(2) pending_line_outside [of "w_pc c1"] by (auto simp: pending_def)
  qed
  show "pending (put_worker s1 t c1) = pending s" if out: "\<not> worker_section (w_pc ?c)"
  proof -
    note d = worker_step_data(3) [OF assms(3) worker_ok_outside [OF out] out]
    have other: "bank_mutex s \<noteq> Some (Worker t)" using out sec by simp
    show ?thesis
    proof (cases "bank_mutex s1 = Some (Worker t)")
      case True
      have "bank_mutex s \<noteq> Some x" for x
        using m(2) [of x] True other by (cases "x = Worker t") auto
      then have "bank_mutex s = None" by (cases "bank_mutex s") auto
      with True d f assms(2) show ?thesis by (simp add: pending_def)
    next
      case False
      then have "bank_mutex s1 = bank_mutex s"
        using m(2) other by (metis not_None_eq)
      with False d f show ?thesis
        by (auto simp: pending_def split: option.splits bank_tid.splits)
    qed
  qed
qed

lemma bank_data_work:
  assumes "bank_lock_inv s" and "bank_data s" and "t < length (workers s)"
    and "worker_step s t (workers s ! t) = Some (s1, c1)"
  shows "bank_data (put_worker s1 t c1)"
proof -
  let ?c = "workers s ! t" and ?s = "put_worker s1 t c1"
  note f = worker_step_frame [OF assms(4)]
  have ok: "worker_ok (account_balance s) (w_pc ?c) ?c"
    using assms(2,3) unfolding bank_data_def by blast
  note d = worker_step_data [OF assms(4) ok]
  obtain new where new: "ledger s1 = ledger s @ map (Pair t) new"
    "account_balance s1 = replay (account_balance s) new"
    "filter account_line (console s1) @ pending_line (account_balance s1) (w_pc c1) c1 =
      filter account_line (console s) @ pending_line (account_balance s) (w_pc ?c) ?c @
        statement (account_balance s) new"
    using d(2) by blast
  have ops: "ops ?s = ops s @ new" by (simp add: ops_def new(1) comp_def)
  have bal: "account_balance s = replay 0 (ops s)"
    and con: "filter account_line (console s) @ pending s = statement 0 (ops s)"
    using assms(2) by (simp_all add: bank_data_def)
  have "filter account_line (console ?s) @ pending ?s = statement 0 (ops ?s)"
  proof (cases "worker_section (w_pc ?c)")
    case True
    from pending_work(1) [OF assms(1,3,4) this] new(3) con bal ops show ?thesis by simp
  next
    case False
    from d(3) [OF this] pending_work(2) [OF assms(1,3,4) False] con new(1) ops
    show ?thesis by simp
  qed
  moreover have "worker_ok (account_balance s1) (w_pc (workers ?s ! u)) (workers ?s ! u)"
    if "u < length (workers s)" for u
  proof (cases "u = t")
    case True
    with d(1) that f show ?thesis by simp
  next
    case other: False
    have "worker_ok (account_balance s) (w_pc (workers s ! u)) (workers s ! u)"
      using assms(2) that unfolding bank_data_def by blast
    moreover have "account_balance s1 = account_balance s \<or> \<not> worker_section (w_pc (workers s ! u))"
    proof (cases "worker_section (w_pc ?c)")
      case True
      then have "bank_mutex s = Some (Worker t)"
        using lab6_mutex.inside_holds [OF assms(1), of "Worker t"] assms(3) by simp
      then show ?thesis
        using lab6_mutex.inside_holds [OF assms(1), of "Worker u"] that other by auto
    qed (use d(3) in simp)
    ultimately show ?thesis using other f worker_ok_outside by auto
  qed
  ultimately show ?thesis using bal new(2) ops f by (simp add: bank_data_def)
qed

text \<open>
  The other steps leave the balance, the ledger and the lines about the account alone, and no
  worker enters a section.
\<close>

lemma bank_data_frame:
  assumes "bank_data s" and "account_balance s1 = account_balance s" and "ledger s1 = ledger s"
    and "filter account_line (console s1) = filter account_line (console s)" and "pending s1 = pending s"
    and "\<forall>t < length (workers s1). t < length (workers s) \<and> workers s1 ! t = workers s ! t \<or>
      \<not> worker_section (w_pc (workers s1 ! t))"
  shows "bank_data s1"
  using assms worker_ok_outside by (auto simp: bank_data_def ops_def)

lemma pending_same:
  "bank_mutex s1 = bank_mutex s \<Longrightarrow> account_balance s1 = account_balance s \<Longrightarrow>
    workers s1 = workers s \<Longrightarrow> pending s1 = pending s"
  by (simp only: pending_def)

lemma bank_data_step:
  assumes lock: "bank_lock_inv s" and data: "bank_data s" and step: "bank_step s e = Some s'"
  shows "bank_data s'"
proof -
  have main: "main_section (main_pc s) \<Longrightarrow> pending s = []"
    using lab6_mutex.inside_holds [OF lock, of MainThread] by (simp add: pending_def)
  from step show ?thesis
  proof (cases rule: bank_step_cases)
    case (register fd created)
    with main have "pending s = []" "bank_mutex s = Some MainThread"
      using lab6_mutex.inside_holds [OF lock, of MainThread] by simp_all
    with register show ?thesis
      by (intro bank_data_frame [OF data]) (auto simp: pending_def register_workers register_console nth_append)
  next
    case (receive t bytes)
    have "\<not> worker_section (w_pc (workers s ! t))" using receive(2) by simp
    then have "bank_mutex s \<noteq> Some (Worker t)"
      using lock [unfolded bank_lock_inv_def, rule_format, of "Worker t"] receive(1) by simp
    then have "pending s' = pending s"
      using receive(3) by (auto simp: pending_def split: option.splits bank_tid.splits)
    with receive show ?thesis
      by (intro bank_data_frame [OF data]) (auto simp: nth_list_update)
  next
    case (work t s1 c1)
    then show ?thesis using bank_data_work [OF lock data] by simp
  next
    case (lock fd)
    then show ?thesis by (intro bank_data_frame [OF data]) (auto simp: pending_def)
  next
    case unlock
    with main show ?thesis by (intro bank_data_frame [OF data]) (auto simp: pending_def)
  qed (use data in \<open>auto intro!: bank_data_frame [OF data] pending_same\<close>)
qed

interpretation lab6_bank: inductive_invariant bank_start bank_step bank_inv
proof unfold_locales
  show "bank_inv bank_start"
    using lab6_mutex.inv_start
    by (simp add: bank_inv_def bank_data_def ops_def pending_def bank_start_def mutex_free_def)
qed (auto simp: bank_inv_def intro: bank_lock_step bank_data_step)

text \<open>
  The server refines the account with atomic operations: the balance in memory moves only by
  whole operations of that account.
\<close>

lemma bank_step_account:
  assumes "bank_inv s" and "bank_step s e = Some s'"
  shows "account_balance s' = account_balance s \<or>
    (\<exists>op. account_step (account_balance s) op = Some (account_balance s'))"
  using assms(2)
proof (cases rule: bank_step_cases)
  case (work t s1 c1)
  have ok: "worker_ok (account_balance s) (w_pc (workers s ! t)) (workers s ! t)"
    using assms(1) work(1) unfolding bank_inv_def bank_data_def by blast
  show ?thesis
  proof (cases "w_pc (workers s ! t)")
    case (WStoring v)
    with ok have "v = apply_op (account_balance s) (worker_op (workers s ! t))" by simp
    moreover have "account_balance s' = v" using WStoring work(2,3) by (auto simp: worker_step_def)
    ultimately show ?thesis by (auto simp: account_step_def)
  qed (use work(2,3) in \<open>auto simp: worker_step_def split: if_splits\<close>)
qed auto

interpretation lab6_account: refinement bank_start bank_step bank_inv 0 account_step account_balance
proof unfold_locales
  show "account_balance bank_start = 0" by (simp add: bank_start_def)
qed (rule bank_step_account)

section \<open>The other lines of the output\<close>

text \<open>
  The first line reports the port, every registered client has one line, the shutdown has one line,
  and a connection is rejected only when the table is full.
\<close>

definition console_ok :: "bank \<Rightarrow> bool" where
  "console_ok s \<longleftrightarrow> (\<exists>rest. console s = msg_listening # rest \<and> msg_listening \<notin> set rest) \<and>
    count_list (console s) msg_connected = num_clients s \<and>
    count_list (console s) msg_shutdown = (if shutdown_at s = NoSignal then 0 else 1) \<and>
    (msg_full \<in> set (console s) \<longrightarrow> MAX_CLIENTS \<le> num_clients s)"

lemma msg_distinct [simp]:
  "msg_listening \<noteq> msg_connected" "msg_listening \<noteq> msg_full" "msg_listening \<noteq> msg_shutdown"
  "msg_connected \<noteq> msg_full" "msg_connected \<noteq> msg_shutdown" "msg_full \<noteq> msg_shutdown"
  by (simp_all add: msg_listening_def msg_connected_def msg_full_def msg_shutdown_def)

lemmas msg_distinct_sym [simp] = msg_distinct [symmetric]

lemma worker_step_console:
  assumes "worker_step s t c = Some (s1, c1)"
  shows "\<exists>ls. console s1 = console s @ ls \<and> (\<forall>l \<in> set ls. account_line l)"
    and "shutdown_at s1 = shutdown_at s"
  using assms by (cases "w_pc c"; force simp: worker_step_def split: if_splits)+

lemma console_ok_add:
  assumes "console_ok s" and "console s1 = console s @ ls" and "\<forall>l \<in> set ls. account_line l"
    and "num_clients s1 = num_clients s" and "shutdown_at s1 = shutdown_at s"
  shows "console_ok s1"
proof -
  have "msg_listening \<notin> set ls" "msg_connected \<notin> set ls" "msg_full \<notin> set ls" "msg_shutdown \<notin> set ls"
    using assms(3) by (auto simp: account_line_def)
  with assms(1,2,4,5) show ?thesis by (auto simp: console_ok_def)
qed

lemma console_ok_step:
  assumes "console_ok s" and "bank_step s e = Some s'" shows "console_ok s'"
  using assms(2)
proof (cases rule: bank_step_cases)
  case (register fd created)
  with assms(1) show ?thesis by (auto simp: console_ok_def register_console register_workers)
next
  case (work t s1 c1)
  obtain ls where ls: "console s1 = console s @ ls" "\<forall>l \<in> set ls. account_line l"
    using worker_step_console(1) [OF work(2)] by blast
  with work worker_step_frame(3) [OF work(2)] worker_step_console(2) [OF work(2)] show ?thesis
    by (intro console_ok_add [OF assms(1), of s' ls]) (simp_all add: put_worker_def)
next
  case (shutdown xs c b)
  with assms(1) show ?thesis by (simp add: console_ok_def)
qed (use assms(1) in \<open>auto simp: console_ok_def put_worker_def\<close>)

interpretation lab6_console: inductive_invariant bank_start bank_step console_ok
proof unfold_locales
  show "console_ok bank_start" by (simp add: console_ok_def bank_start_def)
qed (rule console_ok_step)

end
