(* ===== verification/Lab6_Counts.thy ===== *)
theory Lab6_Counts
  imports Lab6_Invariants
begin

text \<open>
  The counting invariant of the account server: how often each worker has acted, and what the
  ledger adds up to.
\<close>

section \<open>How often a worker has acted\<close>

definition entries :: "bank \<Rightarrow> nat \<Rightarrow> bank_op list" where
  "entries s t = map snd (filter (\<lambda>e. fst e = t) (ledger s))"

fun acted :: "worker_pc \<Rightarrow> bool" where
  "acted WPrinting \<longleftrightarrow> True"
| "acted WRefused \<longleftrightarrow> True"
| "acted WUnlocking \<longleftrightarrow> True"
| "acted _ \<longleftrightarrow> False"

fun in_loop :: "worker_pc \<Rightarrow> bool" where
  "in_loop WLocking \<longleftrightarrow> True"
| "in_loop p \<longleftrightarrow> worker_section p"

definition finished :: "worker \<Rightarrow> nat" where
  "finished c = nat (w_i c) + (if acted (w_pc c) then 1 else 0)"

definition known_op :: "worker \<Rightarrow> bool" where
  "known_op c \<longleftrightarrow> is_deposit c \<or> is_withdraw c"

definition progress_ok :: "worker \<Rightarrow> bool" where
  "progress_ok c \<longleftrightarrow>
    (if in_loop (w_pc c) then 0 \<le> w_i c \<and> w_i c < sint (w_times c)
     else if w_pc c \<in> {WClosing, WClosed} then w_i c = max 0 (sint (w_times c))
     else w_i c = 0 \<and> w_times c = 0 \<and> w_operation c = [])"

definition counted :: "bank \<Rightarrow> nat \<Rightarrow> worker \<Rightarrow> bool" where
  "counted s t c \<longleftrightarrow> progress_ok c \<and>
    entries s t = (if known_op c then replicate (finished c) (worker_op c) else [])"

definition bank_counts :: "bank \<Rightarrow> bool" where
  "bank_counts s \<longleftrightarrow> (\<forall>e \<in> set (ledger s). fst e < length (workers s)) \<and>
    (\<forall>t < length (workers s). counted s t (workers s ! t))"

lemma known_op_update [simp]:
  "known_op (c\<lparr>w_pc := p\<rparr>) = known_op c" "known_op (c\<lparr>w_socket := k\<rparr>) = known_op c" "known_op (c\<lparr>w_i := i\<rparr>) = known_op c"
  by (simp_all add: known_op_def)

lemma no_operation: "w_operation c = [] \<Longrightarrow> \<not> known_op c"
  by (simp add: known_op_def is_withdraw_def is_deposit_def strcmp_eq_def NUL_def)

lemma counted_new: "\<forall>e \<in> set (ledger s). fst e \<noteq> t \<Longrightarrow> counted s t new_worker"
  by (auto simp: counted_def progress_ok_def entries_def no_operation new_worker_def filter_empty_conv)

lemma counted_frame: "ledger s1 = ledger s \<Longrightarrow> counted s1 t c = counted s t c"
  by (simp add: counted_def entries_def)

lemma counted_receive:
  assumes "counted s t c" and "w_pc c = WReading"
  shows "counted s t (read_request c bytes)"
  using assms
  by (auto simp: read_request_def counted_def progress_ok_def finished_def no_operation
      split: list.splits conversion.splits)

lemma counted_keep:
  assumes "counted s t c" and "ledger s1 = ledger s" and "finished c1 = finished c"
    and "worker_op c1 = worker_op c" and "known_op c1 = known_op c" and "progress_ok c1"
  shows "counted s1 t c1"
  using assms by (simp add: counted_def entries_def)

lemma counted_act:
  assumes "counted s t c" and "ledger s1 = ledger s @ [(t, worker_op c)]"
    and "finished c1 = Suc (finished c)" and "known_op c"
    and "worker_op c1 = worker_op c" and "known_op c1" and "progress_ok c1"
  shows "counted s1 t c1"
  using assms by (simp add: counted_def entries_def replicate_append_same)

lemma counted_step:
  assumes "worker_step s t c = Some (s1, c1)" and "counted s t c"
    and "worker_ok (account_balance s) (w_pc c) c"
  shows "counted s1 t c1" and "u \<noteq> t \<Longrightarrow> entries s1 u = entries s u"
    and "\<forall>e \<in> set (ledger s1). e \<in> set (ledger s) \<or> fst e = t"
proof -
  have p: "progress_ok c" using assms(2) by (simp add: counted_def)
  note P = worker_step_def progress_ok_def finished_def
  have "counted s1 t c1"
  proof (cases "w_pc c")
    case (WStoring v)
    with assms(1,3) p show ?thesis
      by (intro counted_act [OF assms(2)]) (auto simp: P known_op_def)
  next
    case WComparing
    show ?thesis
    proof (cases "sint (w_amount c) \<le> sint (account_balance s)")
      case True
      with WComparing assms(1) p show ?thesis by (intro counted_keep [OF assms(2)]) (auto simp: P)
    next
      case False
      with WComparing assms(1,3) p show ?thesis
        by (intro counted_act [OF assms(2)]) (auto simp: P known_op_def)
    qed
  next
    case WChoosing
    show ?thesis
    proof (cases "known_op c")
      case True
      with WChoosing assms(1) p show ?thesis
        by (intro counted_keep [OF assms(2)]) (auto simp: P known_op_def)
    next
      case False
      then have "\<not> is_deposit c" "\<not> is_withdraw c" by (simp_all add: known_op_def)
      with WChoosing assms(1,2) False p show ?thesis
        by (auto simp: P counted_def entries_def)
    qed
  next
    case WUnlocking
    with assms(1) have "entries s1 t = entries s t" by (auto simp: worker_step_def entries_def)
    with WUnlocking assms(1,2) show ?thesis
      by (cases "w_i c + 1 < sint (w_times c)")
        (auto simp: P counted_def nat_add_distrib)
  qed (use assms(1) p in \<open>auto intro!: counted_keep [OF assms(2)] simp: P\<close>)
  moreover have "(u \<noteq> t \<longrightarrow> entries s1 u = entries s u) \<and>
    (\<forall>e \<in> set (ledger s1). e \<in> set (ledger s) \<or> fst e = t)"
    using assms(1) by (cases "w_pc c") (auto simp: worker_step_def entries_def split: if_splits)
  ultimately show "counted s1 t c1" and "u \<noteq> t \<Longrightarrow> entries s1 u = entries s u"
    and "\<forall>e \<in> set (ledger s1). e \<in> set (ledger s) \<or> fst e = t" by blast+
qed

lemma bank_counts_step:
  assumes inv: "bank_inv s" and counts: "bank_counts s" and step: "bank_step s e = Some s'"
  shows "bank_counts s'"
  using step
proof (cases rule: bank_step_cases)
  case (register fd created)
  have "counted s (length (workers s)) new_worker"
    using counts by (intro counted_new) (auto simp: bank_counts_def)
  then show ?thesis using counts register(2)
    by (auto simp: bank_counts_def register_workers nth_append counted_def entries_def less_Suc_eq)
next
  case (receive t bytes)
  have "counted s t (read_request (workers s ! t) bytes)"
    using counts receive(1) by (intro counted_receive [OF _ receive(2)]) (simp add: bank_counts_def)
  then show ?thesis using counts receive
    by (auto simp: bank_counts_def nth_list_update counted_def entries_def)
next
  case (work t s1 c1)
  note f = worker_step_frame [OF work(2)]
  have ok: "worker_ok (account_balance s) (w_pc (workers s ! t)) (workers s ! t)"
    using inv work(1) unfolding bank_inv_def bank_data_def by blast
  have c: "counted s t (workers s ! t)" using counts work(1) by (simp add: bank_counts_def)
  note d = counted_step [OF work(2) c ok]
  have "counted s' u (workers s' ! u)" if "u < length (workers s)" for u
  proof (cases "u = t")
    case True
    then show ?thesis using d(1) work(3) f that by (simp add: counted_def entries_def)
  next
    case False
    with counts that have "counted s u (workers s ! u)" by (simp add: bank_counts_def)
    then show ?thesis using d(2) [OF False] work(3) f False by (simp add: counted_def entries_def)
  qed
  moreover have "\<forall>e \<in> set (ledger s'). fst e < length (workers s)"
    using d(3) counts work(1,3) by (auto simp: bank_counts_def)
  ultimately show ?thesis using work(3) f by (simp add: bank_counts_def)
qed (use counts in \<open>auto simp: bank_counts_def counted_def entries_def\<close>)

interpretation lab6_counts: inductive_invariant bank_start bank_step "\<lambda>s. bank_inv s \<and> bank_counts s"
proof unfold_locales
  show "bank_inv bank_start \<and> bank_counts bank_start"
    using lab6_bank.inv_start by (simp add: bank_counts_def bank_start_def)
qed (blast intro: lab6_bank.inv_step bank_counts_step)

section \<open>Sums over the ledger\<close>

lemma sum_by_worker:
  fixes g :: "'a \<Rightarrow> 'b :: comm_monoid_add" and n :: nat
  assumes "\<forall>e \<in> set L. fst e < n"
  shows "(\<Sum>e \<leftarrow> L. g (snd e)) = (\<Sum>t < n. \<Sum>x \<leftarrow> map snd (filter (\<lambda>e. fst e = t) L). g x)"
  using assms
proof (induction L)
  case (Cons e L)
  have "(\<Sum>t < n. \<Sum>x \<leftarrow> map snd (filter (\<lambda>e'. fst e' = t) (e # L)). g x) =
    (\<Sum>t < n. (if t = fst e then g (snd e) else 0) +
      (\<Sum>x \<leftarrow> map snd (filter (\<lambda>e'. fst e' = t) L). g x))"
    by (intro sum.cong) auto
  also have "\<dots> = g (snd e) + (\<Sum>t < n. \<Sum>x \<leftarrow> map snd (filter (\<lambda>e'. fst e' = t) L). g x)"
    using Cons.prems by (simp add: sum.distrib sum.delta)
  finally show ?case using Cons by simp
qed simp

fun effect :: "bank_op \<Rightarrow> c_int" where
  "effect (Deposit a) = a"
| "effect (Withdraw a) = - a"

fun amount_of :: "bank_op \<Rightarrow> c_int" where
  "amount_of (Deposit a) = a"
| "amount_of (Withdraw a) = a"

fun deposited :: "bank_op \<Rightarrow> int" where
  "deposited (Deposit a) = sint a"
| "deposited (Withdraw a) = 0"

text \<open>A line that reports a refused withdrawal.\<close>

definition refusal :: "char list \<Rightarrow> bool" where
  "refusal line \<longleftrightarrow> take 10 line = ''Withdrawal''"

lemma refusal_simps [simp]:
  "refusal (msg_refused a b)" "\<not> refusal (msg_withdrew b)" "\<not> refusal (msg_deposited b)"
  by (simp_all add: refusal_def msg_refused_def msg_withdrew_def msg_deposited_def)

lemma replay_accepted:
  "\<forall>l \<in> set (statement b os). \<not> refusal l \<Longrightarrow> replay b os = b + (\<Sum>x \<leftarrow> os. effect x)"
proof (induction os arbitrary: b)
  case (Cons x os)
  then have "apply_op b x = b + effect x" by (cases x) (auto split: if_splits)
  with Cons show ?case by (simp add: add.assoc)
qed simp

lemma deposited_nonneg: "0 \<le> sint (amount_of x) \<Longrightarrow> 0 \<le> deposited x"
  by (cases x) simp_all

lemma replay_nonneg:
  assumes "0 \<le> sint b" and "\<forall>x \<in> set os. 0 \<le> sint (amount_of x)"
    and "sint b + (\<Sum>x \<leftarrow> os. deposited x) \<le> 2147483647"
  shows "0 \<le> sint (replay b os)"
  using assms
proof (induction os arbitrary: b)
  case (Cons x os)
  have nn: "0 \<le> (\<Sum>x \<leftarrow> os. deposited x)"
    using Cons.prems(2) by (intro sum_list_nonneg) (auto intro: deposited_nonneg)
  have "0 \<le> sint (apply_op b x) \<and> sint (apply_op b x) \<le> sint b + deposited x"
  proof (cases x)
    case (Deposit a)
    with Cons.prems nn show ?thesis by (simp add: sint_add_c_int)
  next
    case (Withdraw a)
    with Cons.prems sint_c_int_range [of b] show ?thesis by (simp add: sint_sub_c_int)
  qed
  with Cons show ?case by auto
qed simp

lemma reachable_counts:
  "reachable bank_start bank_step s \<Longrightarrow> bank_counts s"
  using lab6_counts.inv_reachable by blast

lemma ops_by_worker:
  fixes g :: "bank_op \<Rightarrow> 'b :: comm_monoid_add"
  assumes "bank_counts s"
  shows "(\<Sum>x \<leftarrow> ops s. g x) = (\<Sum>t < length (workers s). \<Sum>x \<leftarrow> entries s t. g x)"
  using sum_by_worker [of "ledger s" "length (workers s)" g] assms
  by (simp add: bank_counts_def ops_def entries_def comp_def)

lemma finished_le: "progress_ok c \<Longrightarrow> finished c \<le> nat (sint (w_times c))"
  by (cases "w_pc c") (auto simp: progress_ok_def finished_def)

lemma finished_closed: "progress_ok c \<Longrightarrow> w_pc c = WClosed \<Longrightarrow> finished c = nat (sint (w_times c))"
  by (auto simp: progress_ok_def finished_def)

lemma ops_amounts:
  assumes "bank_counts s" and "\<forall>c \<in> set (workers s). 0 \<le> sint (w_amount c)"
  shows "\<forall>x \<in> set (ops s). 0 \<le> sint (amount_of x)"
proof
  fix x assume "x \<in> set (ops s)"
  then obtain t where t: "(t, x) \<in> set (ledger s)" by (auto simp: ops_def)
  with assms(1) have "t < length (workers s)" "counted s t (workers s ! t)"
    by (auto simp: bank_counts_def)
  moreover from t have "x \<in> set (entries s t)" by (force simp: entries_def)
  ultimately have "x = worker_op (workers s ! t)" by (auto simp: counted_def split: if_splits)
  with assms(2) \<open>t < length (workers s)\<close> show "0 \<le> sint (amount_of x)"
    by (simp add: worker_op_def)
qed

text \<open>What the deposits of a worker can add up to.\<close>

definition deposit_limit :: "worker \<Rightarrow> int" where
  "deposit_limit c = (if is_deposit c then int (nat (sint (w_times c))) * sint (w_amount c) else 0)"

lemma ops_deposited:
  assumes "bank_counts s" and "\<forall>c \<in> set (workers s). 0 \<le> sint (w_amount c)"
  shows "(\<Sum>x \<leftarrow> ops s. deposited x) \<le> (\<Sum>c \<leftarrow> workers s. deposit_limit c)"
proof -
  have "(\<Sum>x \<leftarrow> entries s t. deposited x) \<le> deposit_limit (workers s ! t)"
    if t: "t < length (workers s)" for t
  proof -
    let ?c = "workers s ! t"
    have c: "progress_ok ?c"
      "entries s t = (if known_op ?c then replicate (finished ?c) (worker_op ?c) else [])"
      using assms(1) t by (simp_all add: bank_counts_def counted_def)
    have a: "0 \<le> sint (w_amount ?c)" using assms(2) t by simp
    have "int (finished ?c) \<le> int (nat (sint (w_times ?c)))" using finished_le [OF c(1)] by (simp only: of_nat_le_iff)
    from mult_right_mono [OF this a] c(2) a show ?thesis
      by (auto simp: deposit_limit_def worker_op_def sum_list_replicate)
  qed
  then have "(\<Sum>x \<leftarrow> ops s. deposited x) \<le> (\<Sum>t < length (workers s). deposit_limit (workers s ! t))"
    unfolding ops_by_worker [OF assms(1)] by (intro sum_mono) simp
  also have "\<dots> = (\<Sum>c \<leftarrow> workers s. deposit_limit c)"
    by (simp add: sum_list_sum_nth atLeast0LessThan)
  finally show ?thesis .
qed

end
