(* ===== verification/Syscalls.thy ===== *)
theory Syscalls
  imports CLib
begin

text \<open>
  The calls into the operating system that the network programs make before their main loops, and
  how the model writes a program that makes them.

  \<^item> A program is a function of the answers of the operating system (\<open>ans\<close>, a parameter: what each
    call returns); its value is the list of calls made, in order, and how it ended: it left the
    process with a status, its behaviour became undefined, or it goes on with a value.
  \<^item> The socket interface as documented: a call on a descriptor is in order only when the
    descriptor is open and in the right state (a socket is bound before it listens, connected
    before it sends). \<open>use_call\<close> follows the state of every descriptor; \<open>None\<close> is a call out of order.
  \<^item> \<open>in_order\<close> says that all the calls of a program are in order, with what holds at its end; its
    equations follow a program call by call.
\<close>

section \<open>Calls\<close>

datatype signal_name = SIGINT | SIGCHLD

datatype call =
    Socket
  | SetSockOpt int int
  | Bind int "16 word"
  | Listen int int
  | InetAddr "char list"
  | Connect int "char list" "16 word"
  | OpenFile "char list"
  | Send int "char list"
  | Close int
  | Signal signal_name
  | Stdout "char list"
  | Stderr "char list"
  | Perror "char list"

definition SO_REUSEADDR :: int where "SO_REUSEADDR = 2"

definition SO_REUSEPORT :: int where "SO_REUSEPORT = 15"

definition EXIT_FAILURE :: int where "EXIT_FAILURE = 1"

definition newline :: "char list" where "newline = [LF]"

text \<open>
  \<open>htons\<close> on a little-endian machine: the parameter is converted to 16 bits and its two bytes are
  swapped. The network reads the two bytes of the field the other way round.
\<close>

definition htons :: "c_int \<Rightarrow> 16 word" where
  "htons p = word_rotl 8 (ucast p)"

definition wire_port :: "16 word \<Rightarrow> nat" where
  "wire_port sin_port = unat (word_rotl 8 sin_port)"

lemma wire_port_htons [simp]: "wire_port (htons p) = unat p mod 65536"
proof -
  have "word_rotl 8 (ucast p :: 16 word) = word_rotr 8 (ucast p)"
    by (simp add: word_rotl_eq_word_rotr)
  then have "word_rotl 8 (htons p) = ucast p" by (simp add: htons_def)
  then show ?thesis
    by (simp add: wire_port_def unsigned_ucast_eq unsigned_take_bit_eq take_bit_eq_mod)
qed

section \<open>Programs\<close>

datatype 'a outcome = Exit int | Undefined | Go 'a

type_synonym 'a prog = "(call \<Rightarrow> int) \<Rightarrow> call list \<times> 'a outcome"

definition ret :: "'a \<Rightarrow> 'a prog" where
  "ret a = (\<lambda>ans. ([], Go a))"

definition leave :: "int \<Rightarrow> 'a prog" where
  "leave n = (\<lambda>ans. ([], Exit n))"

definition undefined_behaviour :: "'a prog" where
  "undefined_behaviour = (\<lambda>ans. ([], Undefined))"

text \<open>A call whose result the rest of the program uses, and one whose result it ignores.\<close>

definition invoke :: "call \<Rightarrow> (int \<Rightarrow> 'a prog) \<Rightarrow> 'a prog" where
  "invoke c k = (\<lambda>ans. let (cs, r) = k (ans c) ans in (c # cs, r))"

definition perform :: "call \<Rightarrow> 'a prog \<Rightarrow> 'a prog" where
  "perform c p = invoke c (\<lambda>_. p)"

definition and_then :: "'a prog \<Rightarrow> ('a \<Rightarrow> 'b prog) \<Rightarrow> 'b prog" where
  "and_then p k = (\<lambda>ans.
    case p ans of
      (cs, Exit n) \<Rightarrow> (cs, Exit n)
    | (cs, Undefined) \<Rightarrow> (cs, Undefined)
    | (cs, Go a) \<Rightarrow> (let (cs', r) = k a ans in (cs @ cs', r)))"

text \<open>\<open>argv[i]\<close> is a null pointer past the arguments, which \<open>printf\<close> shows as \<open>(null)\<close>.\<close>

definition arg :: "char list list \<Rightarrow> nat \<Rightarrow> char list option" where
  "arg argv i = (if i < length argv then Some (argv ! i) else None)"

definition arg_text :: "char list list \<Rightarrow> nat \<Rightarrow> char list" where
  "arg_text argv i = (case arg argv i of Some a \<Rightarrow> a | None \<Rightarrow> ''(null)'')"

lemma prog_simps [simp]:
  "ret a ans = ([], Go a)"
  "leave n ans = ([], Exit n)"
  "undefined_behaviour ans = ([], Undefined)"
  "invoke c k ans = (c # fst (k (ans c) ans), snd (k (ans c) ans))"
  "perform c p ans = (c # fst (p ans), snd (p ans))"
  by (simp_all add: ret_def leave_def undefined_behaviour_def invoke_def perform_def split_beta)

section \<open>The state of the descriptors\<close>

datatype descriptor =
    Fresh
  | Bound nat
  | Listening nat
  | Connected "char list" nat
  | Opened "char list"

type_synonym descriptors = "int \<Rightarrow> descriptor option"

definition is_socket :: "descriptor \<Rightarrow> bool" where
  "is_socket d = (case d of Opened _ \<Rightarrow> False | _ \<Rightarrow> True)"

fun use_call :: "(call \<Rightarrow> int) \<Rightarrow> descriptors \<Rightarrow> call \<Rightarrow> descriptors option" where
  "use_call ans t Socket = Some (if ans Socket < 0 then t else t(ans Socket \<mapsto> Fresh))"
| "use_call ans t (SetSockOpt fd opt) =
    (case t fd of Some d \<Rightarrow> (if is_socket d then Some t else None) | None \<Rightarrow> None)"
| "use_call ans t (Bind fd p) =
    (if t fd = Some Fresh
     then Some (if ans (Bind fd p) < 0 then t else t(fd \<mapsto> Bound (wire_port p))) else None)"
| "use_call ans t (Listen fd n) =
    (case t fd of
       Some (Bound p) \<Rightarrow> Some (if ans (Listen fd n) < 0 then t else t(fd \<mapsto> Listening p))
     | _ \<Rightarrow> None)"
| "use_call ans t (Connect fd a p) =
    (if t fd = Some Fresh
     then Some (if ans (Connect fd a p) < 0 then t else t(fd \<mapsto> Connected a (wire_port p)))
     else None)"
| "use_call ans t (OpenFile path) =
    Some (if ans (OpenFile path) < 0 then t else t(ans (OpenFile path) \<mapsto> Opened path))"
| "use_call ans t (Send fd bytes) =
    (case t fd of Some (Connected _ _) \<Rightarrow> Some t | _ \<Rightarrow> None)"
| "use_call ans t (Close fd) = (if t fd = None then None else Some (t(fd := None)))"
| "use_call ans t c = Some t"

primrec use_calls :: "(call \<Rightarrow> int) \<Rightarrow> descriptors \<Rightarrow> call list \<Rightarrow> descriptors option" where
  "use_calls ans t [] = Some t"
| "use_calls ans t (c # cs) =
    (case use_call ans t c of None \<Rightarrow> None | Some t' \<Rightarrow> use_calls ans t' cs)"

lemma use_calls_append:
  "use_calls ans t (cs @ cs') =
    (case use_calls ans t cs of None \<Rightarrow> None | Some t' \<Rightarrow> use_calls ans t' cs')"
  by (induction cs arbitrary: t) (simp_all split: option.split)

text \<open>
  The documented results: a call that fails gives \<open>- 1\<close>, \<open>setsockopt\<close> gives 0 when it does not
  fail, and a new descriptor is one that is not in use.
\<close>

definition kernel_results :: "(call \<Rightarrow> int) \<Rightarrow> bool" where
  "kernel_results ans \<longleftrightarrow> (\<forall>c. - 1 \<le> ans c) \<and> (\<forall>fd opt. ans (SetSockOpt fd opt) \<le> 0) \<and>
    (\<forall>path. ans (OpenFile path) = ans Socket \<longrightarrow> ans Socket < 0)"

section \<open>Programs whose calls are in order\<close>

definition in_order :: "(call \<Rightarrow> int) \<Rightarrow> descriptors \<Rightarrow> 'a prog \<Rightarrow>
    ('a outcome \<Rightarrow> descriptors \<Rightarrow> bool) \<Rightarrow> bool" where
  "in_order ans t p Q =
    (case use_calls ans t (fst (p ans)) of None \<Rightarrow> False | Some t' \<Rightarrow> Q (snd (p ans)) t')"

lemma in_orderD:
  "in_order ans t p Q \<Longrightarrow> \<exists>t'. use_calls ans t (fst (p ans)) = Some t' \<and> Q (snd (p ans)) t'"
  by (auto simp: in_order_def split: option.splits)

lemma in_order_simps [simp]:
  "in_order ans t (ret a) Q = Q (Go a) t"
  "in_order ans t (leave n) Q = Q (Exit n) t"
  "in_order ans t undefined_behaviour Q = Q Undefined t"
  "in_order ans t (invoke c k) Q =
    (case use_call ans t c of None \<Rightarrow> False | Some t' \<Rightarrow> in_order ans t' (k (ans c)) Q)"
  "in_order ans t (perform c p) Q =
    (case use_call ans t c of None \<Rightarrow> False | Some t' \<Rightarrow> in_order ans t' p Q)"
  by (simp_all add: in_order_def split: option.split)

lemma in_order_and_then [simp]:
  "in_order ans t (and_then p k) Q =
    in_order ans t p (\<lambda>r t'. case r of Go a \<Rightarrow> in_order ans t' (k a) Q
      | Exit n \<Rightarrow> Q (Exit n) t' | Undefined \<Rightarrow> Q Undefined t')"
proof (cases "p ans")
  case (Pair cs r)
  then show ?thesis
    by (cases r) (simp_all add: in_order_def and_then_def use_calls_append split_beta split: option.split)
qed

lemma in_order_if [simp]:
  "in_order ans t (if b then p else q) Q = (if b then in_order ans t p Q else in_order ans t q Q)"
  by simp

end
