(* ===== verification/Sockets.thy ===== *)
theory Sockets
  imports Syscalls Lab6_Bank
begin

text \<open>
  How the network programs set up their sockets: the servers \<open>hw3/hw3.c\<close>, \<open>hw2/server.c\<close>,
  \<open>lab5/lab5.c\<close> and \<open>lab6/server.c\<close> up to their accept loops, and the clients \<open>hw2/client.c\<close>,
  \<open>lab4/reader.c\<close> and \<open>lab6/client.c\<close> up to their main loops (the last one to its end). Each is
  the part of \<open>main\<close> it stands for, call by call, with every exit.
\<close>

section \<open>Servers\<close>

definition handle_error :: "char list \<Rightarrow> 'a prog" where
  "handle_error msg = perform (Perror msg) (leave EXIT_FAILURE)"

text \<open>
  From \<open>socket\<close> to \<open>listen\<close>, the same text in hw3, hw2 and lab5; the argument is \<open>argv[1]\<close>, which
  \<open>atoi\<close> reads (a null pointer is undefined behaviour). The listening socket and the port.
\<close>

definition open_listener :: "char list option \<Rightarrow> (int \<times> c_int) prog" where
  "open_listener arg1 =
    invoke Socket (\<lambda>sockfd.
      if sockfd = - 1 then handle_error ''fail to create socket'' else
    invoke (SetSockOpt sockfd SO_REUSEADDR) (\<lambda>r.
      if r < 0 then handle_error ''fail to setsockopt'' else
    (case arg1 of None \<Rightarrow> undefined_behaviour | Some a \<Rightarrow>
    invoke (Bind sockfd (htons (atoi a))) (\<lambda>r.
      if r < 0 then handle_error ''fail to bind'' else
    invoke (Listen sockfd 10) (\<lambda>r.
      if r < 0 then handle_error ''fail to listen'' else
    ret (sockfd, atoi a))))))"

definition listening_on :: "c_int \<Rightarrow> char list" where
  "listening_on port = ''Server listening on port '' @ show_int (sint port) @ ''...'' @ newline"

definition hw3_setup :: "char list list \<Rightarrow> int prog" where
  "hw3_setup argv =
    (if length argv \<noteq> 2
     then perform (Stderr (''usage: '' @ arg_text argv 0 @ '' <port>'' @ newline)) (leave EXIT_FAILURE)
     else and_then (open_listener (arg argv 1)) (\<lambda>(server_fd, port).
       perform (Stdout (listening_on port)) (ret server_fd)))"

definition hw2_server_setup :: "char list list \<Rightarrow> int prog" where
  "hw2_server_setup argv =
    (if length argv \<noteq> 2
     then perform (Stderr (''usage : '' @ arg_text argv 0 @ '' <port>'' @ newline)) (leave EXIT_FAILURE)
     else and_then (open_listener (arg argv 1)) (\<lambda>(sockfd, port).
       perform (Stdout (listening_on port)) (ret sockfd)))"

definition lab5_setup :: "char list list \<Rightarrow> int prog" where
  "lab5_setup argv =
    and_then (open_listener (arg argv 1)) (\<lambda>(sockfd, port).
      perform (Signal SIGCHLD) (ret sockfd))"

definition PORT :: c_int where "PORT = 8888"

definition lab6_server_setup :: "int prog" where
  "lab6_server_setup =
    perform (Signal SIGINT) (
    invoke Socket (\<lambda>server_fd.
      if server_fd = 0 then perform (Perror ''socket failed'') (leave EXIT_FAILURE) else
    invoke (SetSockOpt server_fd (or SO_REUSEADDR SO_REUSEPORT)) (\<lambda>r.
      if r \<noteq> 0
      then perform (Perror ''setsockopt failed'') (perform (Close server_fd) (leave EXIT_FAILURE)) else
    invoke (Bind server_fd (htons PORT)) (\<lambda>r.
      if r < 0
      then perform (Perror ''bind failed'') (perform (Close server_fd) (leave EXIT_FAILURE)) else
    invoke (Listen server_fd 3) (\<lambda>r.
      if r < 0
      then perform (Perror ''listen failed'') (perform (Close server_fd) (leave EXIT_FAILURE)) else
    perform (Stdout (''Server listening on port '' @ show_int (sint PORT) @ newline))
      (ret server_fd))))))"

section \<open>Clients\<close>

definition hw2_client_setup :: "char list list \<Rightarrow> int prog" where
  "hw2_client_setup argv =
    (if length argv \<noteq> 3
     then perform (Stderr (''Usage: '' @ arg_text argv 0 @ '' <server_ip> <server_port>'' @ newline))
       (leave EXIT_FAILURE)
     else (let server_ip = argv ! 1; server_port = atoi (argv ! 2) in
       invoke Socket (\<lambda>client_socket.
         if client_socket = - 1
         then perform (Perror ''Socket creation failed'') (leave EXIT_FAILURE) else
       invoke (InetAddr server_ip) (\<lambda>r.
         if r \<le> 0
         then perform (Perror ''Invalid address/ Address not supported'') (leave EXIT_FAILURE) else
       invoke (Connect client_socket server_ip (htons server_port)) (\<lambda>r.
         if r = - 1
         then perform (Perror ''Connection failed'')
           (perform (Close client_socket) (leave EXIT_FAILURE)) else
       ret client_socket)))))"

text \<open>The reader of lab4: the connection to the screen and the display.\<close>

definition reader_setup :: "char list list \<Rightarrow> (int \<times> int) prog" where
  "reader_setup argv =
    (if length argv \<noteq> 4
     then perform (Stderr ''Usage: ./reader <server_ip> <port> <device_path>'') (leave EXIT_FAILURE)
     else
       perform (Signal SIGINT) (
       invoke Socket (\<lambda>connfd.
         if connfd = - 1 then perform (Perror ''socket()'') (leave EXIT_FAILURE) else
       perform (InetAddr (argv ! 1)) (
       invoke (Connect connfd (argv ! 1) (htons (atoi (argv ! 2)))) (\<lambda>r.
         if r = - 1 then perform (Perror ''connect()'') (leave EXIT_FAILURE) else
       invoke (OpenFile (argv ! 3)) (\<lambda>fd.
         if fd < 0 then perform (Perror (argv ! 3)) (leave EXIT_FAILURE) else
       ret (connfd, fd)))))))"

text \<open>The client of lab6, all of \<open>main\<close>: it never goes on, it leaves with a status.\<close>

definition lab6_client_main :: "char list list \<Rightarrow> unit prog" where
  "lab6_client_main argv =
    (if length argv \<noteq> 6 then perform (Stdout ''wrong enter number'') (leave 1)
     else
       invoke Socket (\<lambda>sock.
         if sock < 0 then perform (Perror ''Socket creation error'') (leave (- 1)) else
       invoke (InetAddr ''127.0.0.1'') (\<lambda>r.
         if r \<le> 0
         then perform (Perror ''Invalid address/ Address not supported'') (leave (- 1)) else
       invoke (Connect sock ''127.0.0.1'' (htons PORT)) (\<lambda>r.
         if r < 0 then perform (Perror ''Connection failed'') (leave (- 1)) else
       invoke (Send sock (client_request (argv ! 3) (argv ! 4) (argv ! 5))) (\<lambda>r.
         if r = - 1
         then perform (Stdout ''send fail'') (perform (Close sock) (leave EXIT_FAILURE)) else
       perform (Close sock) (leave 0))))))"

section \<open>What a set-up promises\<close>

text \<open>
  The calls whose failure ends a set-up, and the complaint about each, as the three servers with
  the common text word it and as lab6 does.
\<close>

fun checked :: "call \<Rightarrow> bool" where
  "checked Socket \<longleftrightarrow> True"
| "checked (SetSockOpt fd opt) \<longleftrightarrow> True"
| "checked (Bind fd p) \<longleftrightarrow> True"
| "checked (Listen fd n) \<longleftrightarrow> True"
| "checked _ \<longleftrightarrow> False"

definition failing :: "(call \<Rightarrow> int) \<Rightarrow> call \<Rightarrow> bool" where
  "failing ans c \<longleftrightarrow> checked c \<and> ans c = - 1"

fun complaint :: "call \<Rightarrow> char list" where
  "complaint Socket = ''fail to create socket''"
| "complaint (SetSockOpt fd opt) = ''fail to setsockopt''"
| "complaint (Bind fd p) = ''fail to bind''"
| "complaint (Listen fd n) = ''fail to listen''"
| "complaint _ = []"

fun lab6_complaint :: "call \<Rightarrow> char list" where
  "lab6_complaint (SetSockOpt fd opt) = ''setsockopt failed''"
| "lab6_complaint (Bind fd p) = ''bind failed''"
| "lab6_complaint (Listen fd n) = ''listen failed''"
| "lab6_complaint _ = []"

text \<open>
  A set-up that goes on has made all four calls on the socket it created, and none has failed; one
  that leaves does so with status 1, after the first call that failed, with the complaint about
  that call and what has to be closed.
\<close>

definition stops_at_failure :: "(call \<Rightarrow> int) \<Rightarrow> (call \<Rightarrow> char list) \<Rightarrow> call list \<Rightarrow>
    call list \<times> int outcome \<Rightarrow> bool" where
  "stops_at_failure ans complain closing r =
    (case snd r of
       Go fd \<Rightarrow> fd = ans Socket \<and> (\<forall>c \<in> set (fst r). \<not> failing ans c) \<and>
         (\<exists>opt p n. filter checked (fst r) = [Socket, SetSockOpt fd opt, Bind fd p, Listen fd n])
     | Exit n \<Rightarrow> n = 1 \<and> (\<exists>before c. fst r = before @ [c, Perror (complain c)] @ closing \<and>
         failing ans c \<and> (\<forall>b \<in> set before. \<not> failing ans b))
     | Undefined \<Rightarrow> False)"

lemma stops_at_failureI:
  "cs = before @ [c, Perror (complain c)] @ closing \<Longrightarrow> failing ans c \<Longrightarrow>
    \<forall>b \<in> set before. \<not> failing ans b \<Longrightarrow> stops_at_failure ans complain closing (cs, Exit 1)"
  by (auto simp: stops_at_failure_def)

lemma stops_at_failure_Go:
  "filter checked cs = [Socket, SetSockOpt (ans Socket) opt, Bind (ans Socket) p, Listen (ans Socket) n] \<Longrightarrow>
    \<forall>c \<in> set cs. \<not> failing ans c \<Longrightarrow> stops_at_failure ans complain closing (cs, Go (ans Socket))"
  by (simp add: stops_at_failure_def)

lemmas setup_defs = handle_error_def open_listener_def hw3_setup_def hw2_server_setup_def
  lab5_setup_def lab6_server_setup_def and_then_def arg_def

lemma reuse_options: "or SO_REUSEADDR SO_REUSEPORT = SO_REUSEPORT"
  by (simp add: SO_REUSEADDR_def SO_REUSEPORT_def)

lemma unat_PORT [simp]: "unat PORT = 8888"
  by (simp add: PORT_def)

lemma kernel_resultsD:
  "kernel_results ans \<Longrightarrow> - 1 \<le> ans c"
  "kernel_results ans \<Longrightarrow> ans (SetSockOpt fd opt) \<le> 0"
  "kernel_results ans \<Longrightarrow> ans (OpenFile path) = ans Socket \<Longrightarrow> ans Socket < 0"
  unfolding kernel_results_def by blast+

text \<open>With the documented results, the three ways to test for failure agree.\<close>

lemma failure_tests:
  assumes "kernel_results ans"
  shows "ans c = - 1 \<longleftrightarrow> ans c < 0" and "ans c \<noteq> - 1 \<longleftrightarrow> \<not> ans c < 0"
    and "ans (SetSockOpt fd opt) = 0 \<longleftrightarrow> \<not> ans (SetSockOpt fd opt) < 0"
  using kernel_resultsD(1) [OF assms, of c] kernel_resultsD(2) [OF assms, of fd opt] by auto

lemma listener_order:
  assumes "kernel_results ans"
    and "\<And>fd port. a = Some port \<Longrightarrow>
      Q (Go (fd, atoi port)) [fd \<mapsto> Listening (unat (atoi port) mod 65536)]"
    and "\<And>t. Q (Exit 1) t" and "\<And>t. a = None \<Longrightarrow> Q Undefined t"
  shows "in_order ans Map.empty (open_listener a) Q"
  using assms(2-4) kernel_resultsD(1) [OF assms(1), of Socket]
  by (cases a) (auto simp: open_listener_def handle_error_def EXIT_FAILURE_def is_socket_def Let_def)

text \<open>The common text, followed by the last call of each server, and the text of lab6.\<close>

lemma listener_stops:
  assumes "kernel_results ans" and "\<And>port. \<not> checked (say_so port)"
  shows "stops_at_failure ans complaint []
    (and_then (open_listener (Some a)) (\<lambda>(fd, port). perform (say_so port) (ret fd)) ans)"
proof -
  let ?c1 = Socket and ?c2 = "SetSockOpt (ans Socket) SO_REUSEADDR"
    and ?c3 = "Bind (ans Socket) (htons (atoi a))" and ?c4 = "Listen (ans Socket) 10"
  let ?r = "and_then (open_listener (Some a)) (\<lambda>(fd, port). perform (say_so port) (ret fd)) ans"
  note D = and_then_def open_listener_def handle_error_def EXIT_FAILURE_def failing_def Let_def
  consider "ans ?c1 = - 1" | "ans ?c1 \<noteq> - 1" "ans ?c2 = - 1"
    | "ans ?c1 \<noteq> - 1" "ans ?c2 \<noteq> - 1" "ans ?c3 = - 1"
    | "ans ?c1 \<noteq> - 1" "ans ?c2 \<noteq> - 1" "ans ?c3 \<noteq> - 1" "ans ?c4 = - 1"
    | "ans ?c1 \<noteq> - 1" "ans ?c2 \<noteq> - 1" "ans ?c3 \<noteq> - 1" "ans ?c4 \<noteq> - 1" by blast
  then show ?thesis
  proof cases
    case 1
    then have "?r = ([?c1, Perror (complaint ?c1)], Exit 1)" by (simp add: D)
    with 1 show ?thesis by (simp only:) (rule stops_at_failureI [of _ "[]" ?c1]; simp add: D)
  next
    case 2
    then have "?r = ([?c1, ?c2, Perror (complaint ?c2)], Exit 1)" by (simp add: D)
    with 2 show ?thesis by (simp only:) (rule stops_at_failureI [of _ "[?c1]" ?c2]; simp add: D)
  next
    case 3
    with failure_tests(2) [OF assms(1)]
    have "?r = ([?c1, ?c2, ?c3, Perror (complaint ?c3)], Exit 1)" by (simp add: D)
    with 3 show ?thesis by (simp only:) (rule stops_at_failureI [of _ "[?c1, ?c2]" ?c3]; simp add: D)
  next
    case 4
    with failure_tests(2) [OF assms(1)]
    have "?r = ([?c1, ?c2, ?c3, ?c4, Perror (complaint ?c4)], Exit 1)" by (simp add: D)
    with 4 show ?thesis
      by (simp only:) (rule stops_at_failureI [of _ "[?c1, ?c2, ?c3]" ?c4]; simp add: D)
  next
    case 5
    with failure_tests(2) [OF assms(1)]
    have "?r = ([?c1, ?c2, ?c3, ?c4, say_so (atoi a)], Go (ans Socket))" by (simp add: D)
    with 5 assms(2) show ?thesis by (simp only:) (rule stops_at_failure_Go; simp add: D)
  qed
qed

lemma no_argument_stops:
  assumes "kernel_results ans"
  shows "and_then (open_listener None) k ans =
    (if ans Socket = - 1 then ([Socket, Perror (complaint Socket)], Exit 1)
     else if ans (SetSockOpt (ans Socket) SO_REUSEADDR) = - 1
     then ([Socket, SetSockOpt (ans Socket) SO_REUSEADDR,
        Perror (complaint (SetSockOpt (ans Socket) SO_REUSEADDR))], Exit 1)
     else ([Socket, SetSockOpt (ans Socket) SO_REUSEADDR], Undefined))"
  using failure_tests(2) [OF assms]
  by (simp add: and_then_def open_listener_def handle_error_def EXIT_FAILURE_def)

lemma show_PORT: "show_int (sint PORT) = ''8888''"
proof -
  have "sint PORT = 8888" by (simp add: PORT_def)
  moreover have "show_int 8888 = ''8888''"
    by (simp add: show_int_def show_nat.simps digit_char_def) code_simp
  ultimately show ?thesis by simp
qed

lemma lab6_stops:
  assumes "kernel_results ans" and "0 < ans Socket"
  shows "stops_at_failure ans lab6_complaint [Close (ans Socket)] (lab6_server_setup ans)"
proof -
  let ?c1 = Socket and ?c2 = "SetSockOpt (ans Socket) SO_REUSEPORT"
    and ?c3 = "Bind (ans Socket) (htons PORT)" and ?c4 = "Listen (ans Socket) 3"
    and ?s = "Signal SIGINT"
  let ?r = "lab6_server_setup ans"
  note D = lab6_server_setup_def reuse_options EXIT_FAILURE_def failing_def Let_def
  note t = failure_tests(2,3) [OF assms(1)]
  consider "ans ?c2 = - 1" | "ans ?c2 \<noteq> - 1" "ans ?c3 = - 1"
    | "ans ?c2 \<noteq> - 1" "ans ?c3 \<noteq> - 1" "ans ?c4 = - 1"
    | "ans ?c2 \<noteq> - 1" "ans ?c3 \<noteq> - 1" "ans ?c4 \<noteq> - 1" by blast
  then show ?thesis
  proof cases
    case 1
    with assms(2) have "?r = ([?s, ?c1, ?c2, Perror (lab6_complaint ?c2), Close (ans Socket)], Exit 1)"
      by (simp add: D)
    with 1 assms(2) show ?thesis
      by (simp only:) (rule stops_at_failureI [of _ "[?s, ?c1]" ?c2]; simp add: D)
  next
    case 2
    with assms(2) t
    have "?r = ([?s, ?c1, ?c2, ?c3, Perror (lab6_complaint ?c3), Close (ans Socket)], Exit 1)"
      by (simp add: D)
    with 2 assms(2) show ?thesis
      by (simp only:) (rule stops_at_failureI [of _ "[?s, ?c1, ?c2]" ?c3]; simp add: D)
  next
    case 3
    with assms(2) t
    have "?r = ([?s, ?c1, ?c2, ?c3, ?c4, Perror (lab6_complaint ?c4), Close (ans Socket)], Exit 1)"
      by (simp add: D)
    with 3 assms(2) show ?thesis
      by (simp only:) (rule stops_at_failureI [of _ "[?s, ?c1, ?c2, ?c3]" ?c4]; simp add: D)
  next
    case 4
    with assms(2) t have "?r = ([?s, ?c1, ?c2, ?c3, ?c4,
        Stdout (''Server listening on port '' @ show_int (sint PORT) @ newline)], Go (ans Socket))"
      by (simp add: D)
    with 4 assms(2) show ?thesis by (simp only:) (rule stops_at_failure_Go; simp add: D)
  qed
qed

text \<open>
  The clients: one that goes on is connected to the address and the low 16 bits of the port it was
  given, the reader of lab4 also has the display open on another descriptor, and the client of
  lab6 always leaves, with status 0 only after closing its socket.
\<close>

lemma client_order:
  assumes "kernel_results ans"
  shows "in_order ans Map.empty (hw2_client_setup argv) (\<lambda>r t. \<forall>fd. r = Go fd \<longrightarrow>
      t = [fd \<mapsto> Connected (argv ! 1) (unat (atoi (argv ! 2)) mod 65536)])"
    and "in_order ans Map.empty (reader_setup argv) (\<lambda>r t. \<forall>connfd fd. r = Go (connfd, fd) \<longrightarrow>
      connfd \<noteq> fd \<and> t = [connfd \<mapsto> Connected (argv ! 1) (unat (atoi (argv ! 2)) mod 65536),
        fd \<mapsto> Opened (argv ! 3)])"
    and "in_order ans Map.empty (lab6_client_main argv) (\<lambda>r t. (\<forall>u. r \<noteq> Go u) \<and> r \<noteq> Undefined \<and>
      (r = Exit 0 \<longrightarrow> t = Map.empty))"
  using kernel_resultsD(1) [OF assms, of Socket]
    kernel_resultsD(1) [OF assms, of "Connect (ans Socket) (argv ! 1) (htons (atoi (argv ! 2)))"]
    kernel_resultsD(1) [OF assms, of "Send (ans Socket) (client_request (argv ! 3) (argv ! 4) (argv ! 5))"]
    kernel_resultsD(3) [OF assms, of "argv ! 3"]
  by (auto simp: hw2_client_setup_def reader_setup_def lab6_client_main_def Let_def fun_eq_iff)

lemma lab6_order:
  assumes "kernel_results ans" and "ans Socket \<noteq> - 1"
  shows "in_order ans Map.empty lab6_server_setup (\<lambda>r t. case r of
      Go fd \<Rightarrow> t = [fd \<mapsto> Listening 8888]
    | Exit n \<Rightarrow> n = 1 \<and> (ans Socket \<noteq> 0 \<longrightarrow> t = Map.empty)
    | Undefined \<Rightarrow> False)"
  using assms(2) kernel_resultsD(1) [OF assms(1), of Socket]
  by (auto simp: lab6_server_setup_def is_socket_def EXIT_FAILURE_def fun_eq_iff Let_def)

section \<open>Properties\<close>

text \<open>
  C17. The three servers of hw2, hw3 and lab5 use their socket in the order the interface asks for,
  whatever the operating system answers: no call on a descriptor that is closed, unbound or of the
  wrong kind. A set-up that succeeds leaves one descriptor open, listening on the low 16 bits of the
  port given. The server of lab6, which listens on 8888 or leaves with status 1 and nothing open
  (unless it takes descriptor 0 for a failure), does so exactly when \<open>socket\<close> succeeds: its test
  misses the failure, and the next call is made on a descriptor that was never open.
\<close>

theorem sockets_used_in_order:
  assumes "kernel_results ans"
  shows "in_order ans Map.empty (hw3_setup argv) (\<lambda>r t. \<forall>fd. r = Go fd \<longrightarrow>
      t = [fd \<mapsto> Listening (unat (atoi (argv ! 1)) mod 65536)]) \<and>
    in_order ans Map.empty (hw2_server_setup argv) (\<lambda>r t. \<forall>fd. r = Go fd \<longrightarrow>
      t = [fd \<mapsto> Listening (unat (atoi (argv ! 1)) mod 65536)]) \<and>
    in_order ans Map.empty (lab5_setup argv) (\<lambda>r t. (r = Undefined \<longrightarrow> length argv < 2) \<and>
      (\<forall>fd. r = Go fd \<longrightarrow> t = [fd \<mapsto> Listening (unat (atoi (argv ! 1)) mod 65536)])) \<and>
    (in_order ans Map.empty lab6_server_setup (\<lambda>r t. case r of
      Go fd \<Rightarrow> t = [fd \<mapsto> Listening 8888]
    | Exit n \<Rightarrow> n = 1 \<and> (ans Socket \<noteq> 0 \<longrightarrow> t = Map.empty)
    | Undefined \<Rightarrow> False) \<longleftrightarrow> ans Socket \<noteq> - 1)"
proof (intro conjI)
  show "in_order ans Map.empty (hw3_setup argv) (\<lambda>r t. \<forall>fd. r = Go fd \<longrightarrow>
      t = [fd \<mapsto> Listening (unat (atoi (argv ! 1)) mod 65536)])"
    by (auto simp: hw3_setup_def arg_def intro!: listener_order [OF assms])
  show "in_order ans Map.empty (hw2_server_setup argv) (\<lambda>r t. \<forall>fd. r = Go fd \<longrightarrow>
      t = [fd \<mapsto> Listening (unat (atoi (argv ! 1)) mod 65536)])"
    by (auto simp: hw2_server_setup_def arg_def intro!: listener_order [OF assms])
  show "in_order ans Map.empty (lab5_setup argv) (\<lambda>r t. (r = Undefined \<longrightarrow> length argv < 2) \<and>
      (\<forall>fd. r = Go fd \<longrightarrow> t = [fd \<mapsto> Listening (unat (atoi (argv ! 1)) mod 65536)]))"
    by (auto simp: lab5_setup_def arg_def intro!: listener_order [OF assms])
  show "in_order ans Map.empty lab6_server_setup (\<lambda>r t. case r of
      Go fd \<Rightarrow> t = [fd \<mapsto> Listening 8888]
    | Exit n \<Rightarrow> n = 1 \<and> (ans Socket \<noteq> 0 \<longrightarrow> t = Map.empty)
    | Undefined \<Rightarrow> False) \<longleftrightarrow> ans Socket \<noteq> - 1"
  proof (cases "ans Socket = - 1")
    case True
    then show ?thesis by (simp add: lab6_server_setup_def)
  next
    case False
    with lab6_order [OF assms] show ?thesis by blast
  qed
qed

text \<open>An operating system that grants everything.\<close>

definition granting_kernel :: "call \<Rightarrow> int" where
  "granting_kernel c =
    (case c of Socket \<Rightarrow> 3 | OpenFile _ \<Rightarrow> 4 | InetAddr _ \<Rightarrow> 1
     | Send _ bytes \<Rightarrow> int (length bytes) | _ \<Rightarrow> 0)"

lemma granting_kernel_results: "kernel_results granting_kernel"
proof -
  have "- 1 \<le> granting_kernel c" for c by (cases c) (simp_all add: granting_kernel_def)
  then show ?thesis by (simp add: kernel_results_def granting_kernel_def)
qed

theorem sockets_used_in_order_witness:
  "\<exists>t. use_calls granting_kernel Map.empty
      (fst (hw3_setup [''./hw3'', ''70000''] granting_kernel)) = Some t \<and>
    t 3 = Some (Listening 4464)"
proof -
  let ?argv = "[''./hw3'', ''70000'']"
  obtain t where t: "use_calls granting_kernel Map.empty (fst (hw3_setup ?argv granting_kernel)) = Some t"
    and lis: "\<forall>fd. snd (hw3_setup ?argv granting_kernel) = Go fd \<longrightarrow>
      t = [fd \<mapsto> Listening (unat (atoi (?argv ! 1)) mod 65536)]"
    using in_orderD [OF sockets_used_in_order [OF granting_kernel_results, THEN conjunct1, of ?argv]]
    by blast
  have "snd (hw3_setup ?argv granting_kernel) = Go 3"
    by (simp add: setup_defs granting_kernel_def)
  with lis have "t = [3 \<mapsto> Listening (unat (atoi (?argv ! 1)) mod 65536)]" by blast
  moreover have "atoi ''70000'' = 70000" by (simp add: number_eval)
  ultimately show ?thesis using t by simp
qed

text \<open>
  C21. A set-up stops at the first call that fails. With the right number of arguments, hw3 and hw2
  either make all four calls on the socket they created, none of them failing, and reach their
  accept loop, or they print the complaint about the first call that failed and leave with
  status 1; with another number of arguments they only print how to be used. lab5 does not check
  its arguments: without a port it does the same until it reads \<open>argv[1]\<close>, where its behaviour is
  undefined. lab6 also closes its socket, and there the claim needs a socket other than descriptor
  0: its test is \<open>== 0\<close>, so it complains about \<open>socket\<close> when descriptor 0 was created, and when
  \<open>socket\<close> fails it does not stop but goes on with descriptor - 1 and, when \<open>setsockopt\<close> refuses that,
  complains about \<open>setsockopt\<close>.
\<close>

theorem setup_stops_at_first_failure:
  assumes "kernel_results ans"
  shows "(if length argv = 2 then stops_at_failure ans complaint [] (hw3_setup argv ans)
      else hw3_setup argv ans =
        ([Stderr (''usage: '' @ arg_text argv 0 @ '' <port>'' @ newline)], Exit 1)) \<and>
    (if length argv = 2 then stops_at_failure ans complaint [] (hw2_server_setup argv ans)
      else hw2_server_setup argv ans =
        ([Stderr (''usage : '' @ arg_text argv 0 @ '' <port>'' @ newline)], Exit 1)) \<and>
    (stops_at_failure ans complaint [] (lab5_setup argv ans) \<or>
      length argv < 2 \<and> lab5_setup argv ans =
        ([Socket, SetSockOpt (ans Socket) SO_REUSEADDR], Undefined)) \<and>
    (2 \<le> length argv \<longrightarrow> stops_at_failure ans complaint [] (lab5_setup argv ans)) \<and>
    (0 < ans Socket \<longrightarrow> stops_at_failure ans lab6_complaint [Close (ans Socket)] (lab6_server_setup ans)) \<and>
    (ans Socket = 0 \<longrightarrow>
      lab6_server_setup ans = ([Signal SIGINT, Socket, Perror ''socket failed''], Exit 1)) \<and>
    (ans Socket = - 1 \<and> ans (SetSockOpt (- 1) SO_REUSEPORT) = - 1 \<longrightarrow> lab6_server_setup ans =
      ([Signal SIGINT, Socket, SetSockOpt (- 1) SO_REUSEPORT, Perror ''setsockopt failed'', Close (- 1)],
       Exit 1))"
proof (intro conjI)
  have final: "\<not> checked (Stdout x)" "\<not> checked (Signal y)" for x y by simp_all
  show "if length argv = 2 then stops_at_failure ans complaint [] (hw3_setup argv ans)
      else hw3_setup argv ans =
        ([Stderr (''usage: '' @ arg_text argv 0 @ '' <port>'' @ newline)], Exit 1)"
    using listener_stops [OF assms final(1)] by (simp add: hw3_setup_def arg_def EXIT_FAILURE_def)
  show "if length argv = 2 then stops_at_failure ans complaint [] (hw2_server_setup argv ans)
      else hw2_server_setup argv ans =
        ([Stderr (''usage : '' @ arg_text argv 0 @ '' <port>'' @ newline)], Exit 1)"
    using listener_stops [OF assms final(1)] by (simp add: hw2_server_setup_def arg_def EXIT_FAILURE_def)
  show l5: "2 \<le> length argv \<longrightarrow> stops_at_failure ans complaint [] (lab5_setup argv ans)"
    using listener_stops [OF assms final(2)] by (simp add: lab5_setup_def arg_def)
  show "stops_at_failure ans complaint [] (lab5_setup argv ans) \<or>
      length argv < 2 \<and> lab5_setup argv ans = ([Socket, SetSockOpt (ans Socket) SO_REUSEADDR], Undefined)"
  proof (cases "length argv < 2")
    case True
    then show ?thesis
      using stops_at_failureI [of _ "[]" Socket complaint "[]" ans]
        stops_at_failureI [of _ "[Socket]" "SetSockOpt (ans Socket) SO_REUSEADDR" complaint "[]" ans]
      by (simp add: lab5_setup_def arg_def no_argument_stops [OF assms] failing_def)
  qed (use l5 in simp)
  show "0 < ans Socket \<longrightarrow>
      stops_at_failure ans lab6_complaint [Close (ans Socket)] (lab6_server_setup ans)"
    using lab6_stops [OF assms] by blast
qed (simp_all add: lab6_server_setup_def reuse_options EXIT_FAILURE_def)

theorem setup_stops_at_first_failure_witness:
  "stops_at_failure (granting_kernel(Bind 3 (htons 80) := - 1)) complaint []
    (hw3_setup [''./hw3'', ''80''] (granting_kernel(Bind 3 (htons 80) := - 1)))"
proof -
  have "kernel_results (granting_kernel(Bind 3 (htons 80) := - 1))"
    using granting_kernel_results by (simp add: kernel_results_def)
  then show ?thesis
    using setup_stops_at_first_failure [THEN conjunct1,
        of "granting_kernel(Bind 3 (htons 80) := - 1)" "[''./hw3'', ''80'']"] by simp
qed

text \<open>What it does there: the failing \<open>bind\<close> is the last call before the complaint.\<close>

lemma failing_bind_reported:
  "hw3_setup [''./hw3'', ''80''] (granting_kernel(Bind 3 (htons 80) := - 1)) =
    ([Socket, SetSockOpt 3 2, Bind 3 (htons 80), Perror ''fail to bind''], Exit 1)"
proof -
  have "atoi ''80'' = 80" by (simp add: number_eval)
  then show ?thesis by (simp add: setup_defs granting_kernel_def SO_REUSEADDR_def EXIT_FAILURE_def)
qed

text \<open>
  The server of lab6 tests the result of \<open>socket\<close> against 0. When no socket could be created it
  goes on with the descriptor - 1: the failure is reported as one of \<open>setsockopt\<close>, and - 1 is
  closed, a use of a descriptor that was never open. When the socket created is descriptor 0 (the
  standard input was closed), it leaves although nothing failed.
\<close>

lemma lab6_socket_test_inverted:
  "ans Socket = - 1 \<and> ans (SetSockOpt (- 1) SO_REUSEPORT) = - 1 \<Longrightarrow>
    lab6_server_setup ans =
      ([Signal SIGINT, Socket, SetSockOpt (- 1) SO_REUSEPORT, Perror ''setsockopt failed'', Close (- 1)],
       Exit 1) \<and>
    use_calls ans Map.empty (fst (lab6_server_setup ans)) = None \<and>
    lab6_server_setup (ans(Socket := 0)) = ([Signal SIGINT, Socket, Perror ''socket failed''], Exit 1)"
  by (simp add: lab6_server_setup_def reuse_options EXIT_FAILURE_def)

end
