(* ===== verification/Lab6_Theorems.thy ===== *)
theory Lab6_Theorems
  imports Lab6_Counts Sockets
begin

text \<open>
  The table of sockets, a worker that runs undisturbed, and the properties of the account server
  and its client.
\<close>

section \<open>The table of clients\<close>

definition slots_ok :: "bank \<Rightarrow> bool" where
  "slots_ok s \<longleftrightarrow> length (client_sockets s) = MAX_CLIENTS \<and> num_clients s \<le> MAX_CLIENTS \<and>
    num_clients s = length (workers s) \<and>
    (\<forall>t < length (workers s). w_pc (workers s ! t) \<noteq> WStart \<longrightarrow>
      w_socket (workers s ! t) = client_sockets s ! t)"

lemma read_request_socket [simp]: "w_socket (read_request c bytes) = w_socket c"
  by (auto simp: read_request_def split: list.splits conversion.splits)

lemma worker_step_socket:
  assumes "worker_step s t c = Some (s1, c1)"
  shows "w_pc c1 \<noteq> WStart"
    and "w_socket c1 = (if w_pc c = WStart then client_sockets s ! t else w_socket c)"
  using assms by (cases "w_pc c"; force simp: worker_step_def split: if_splits)+

lemma slots_step:
  assumes "slots_ok s" and "bank_step s e = Some s'" shows "slots_ok s'"
  using assms(2)
proof (cases rule: bank_step_cases)
  case (register fd created)
  with assms(1) show ?thesis
    by (auto simp: slots_ok_def register_def Let_def nth_append nth_list_update less_Suc_eq
        split: if_splits)
next
  case (receive t bytes)
  with assms(1) show ?thesis by (auto simp: slots_ok_def nth_list_update)
next
  case (work t s1 c1)
  note f = worker_step_frame [OF work(2)] worker_step_socket [OF work(2)]
  from assms(1) work(1) have "w_socket c1 = client_sockets s ! t"
    using f(6) by (auto simp: slots_ok_def)
  with assms(1) work f(1-4) show ?thesis by (auto simp: slots_ok_def nth_list_update)
qed (use assms(1) in \<open>auto simp: slots_ok_def\<close>)

interpretation lab6_slots: inductive_invariant bank_start bank_step slots_ok
proof unfold_locales
  show "slots_ok bank_start" by (simp add: slots_ok_def bank_start_def)
qed (rule slots_step)

lemma full_step:
  assumes "slots_ok s" and "bank_step s e = Some s'" and "num_clients s = MAX_CLIENTS"
  shows "num_clients s' = MAX_CLIENTS"
  using assms(2)
proof (cases rule: bank_step_cases)
  case (work t s1 c1)
  then show ?thesis using worker_step_frame [OF work(2)] assms(3) by simp
qed (use assms(3) in \<open>auto simp: register_workers\<close>)

lemma full_run:
  assumes "slots_ok s" and "run_events bank_step s es = Some s'" and "num_clients s = MAX_CLIENTS"
  shows "num_clients s' = MAX_CLIENTS"
  using assms
proof (induction es arbitrary: s)
  case (Cons e es)
  then obtain s1 where s1: "bank_step s e = Some s1" "run_events bank_step s1 es = Some s'"
    by (auto split: option.splits)
  from Cons.IH [OF slots_step [OF Cons.prems(1) s1(1)] s1(2)]
    full_step [OF Cons.prems(1) s1(1) Cons.prems(3)] show ?case .
qed simp

section \<open>A worker that runs undisturbed\<close>

definition after_op :: "bank \<Rightarrow> nat \<Rightarrow> bank_op \<Rightarrow> bank" where
  "after_op s t x = s\<lparr>account_balance := apply_op (account_balance s) x,
    console := console s @ [op_message (account_balance s) x], ledger := ledger s @ [(t, x)]\<rparr>"

definition next_turn :: "worker \<Rightarrow> worker" where
  "next_turn c = c\<lparr>w_i := w_i c + 1,
    w_pc := (if w_i c + 1 < sint (w_times c) then WLocking else WClosing)\<rparr>"

lemma put_put [simp]: "put_worker (put_worker s t c) t c' = put_worker s t c'"
  by (simp add: put_worker_def)

lemma after_op_simps [simp]:
  "bank_mutex (after_op s t x) = bank_mutex s" "workers (after_op s t x) = workers s"
  "bank_exited (after_op s t x) = bank_exited s"
  "account_balance (after_op s t x) = apply_op (account_balance s) x"
  by (simp_all add: after_op_def)

text \<open>Steps of one worker, with its record kept apart from the state.\<close>

fun worker_run :: "nat \<Rightarrow> bank \<Rightarrow> nat \<Rightarrow> worker \<Rightarrow> (bank \<times> worker) option" where
  "worker_run 0 s t c = Some (s, c)"
| "worker_run (Suc n) s t c =
    (case worker_step s t c of None \<Rightarrow> None | Some (s1, c1) \<Rightarrow> worker_run n s1 t c1)"

lemma worker_run_numeral [simp]:
  "worker_run (numeral k) s t c =
    (case worker_step s t c of None \<Rightarrow> None | Some (s1, c1) \<Rightarrow> worker_run (pred_numeral k) s1 t c1)"
  by (simp add: numeral_eq_Suc)

lemma worker_run_add:
  "worker_run (m + n) s t c =
    (case worker_run m s t c of None \<Rightarrow> None | Some (s1, c1) \<Rightarrow> worker_run n s1 t c1)"
  by (induction m arbitrary: s c) (auto split: option.splits)

declare worker_step_def [run_simps] after_op_def [run_simps] next_turn_def [run_simps]

lemma worker_turn:
  assumes "w_pc c = WLocking" and "bank_mutex s = None" and "known_op c"
  shows "\<exists>k \<le> 7. worker_run k s t c = Some (after_op s t (worker_op c), next_turn c)"
proof (cases "is_deposit c")
  case True
  with assms have "worker_run 6 s t c = Some (after_op s t (worker_op c), next_turn c)"
    by (simp add: run_simps)
  then show ?thesis by (intro exI [of _ 6]) simp
next
  case False
  with assms(3) have w: "is_withdraw c" by (simp add: known_op_def)
  show ?thesis
  proof (cases "sint (w_amount c) \<le> sint (account_balance s)")
    case True
    with assms w have "worker_run 7 s t c = Some (after_op s t (worker_op c), next_turn c)"
      by (simp add: run_simps)
    then show ?thesis by (intro exI [of _ 7]) simp
  next
    case False
    with assms w have "worker_run 5 s t c = Some (after_op s t (worker_op c), next_turn c)"
      by (simp add: run_simps)
    then show ?thesis by (intro exI [of _ 5]) simp
  qed
qed

lemma worker_turns:
  assumes "w_pc c = WLocking" and "bank_mutex s = None" and "known_op c"
    and "w_i c + int n = sint (w_times c)" and "0 < n"
  shows "\<exists>k \<le> 7 * n. \<exists>s' c'. worker_run k s t c = Some (s', c') \<and> w_pc c' = WClosing \<and>
    bank_mutex s' = None \<and> workers s' = workers s \<and> bank_exited s' = bank_exited s \<and>
    account_balance s' = replay (account_balance s) (replicate n (worker_op c)) \<and>
    console s' = console s @ statement (account_balance s) (replicate n (worker_op c))"
  using assms
proof (induction n arbitrary: s c)
  case (Suc n)
  obtain k where k: "k \<le> 7" "worker_run k s t c = Some (after_op s t (worker_op c), next_turn c)"
    using worker_turn [OF Suc.prems(1-3)] by blast
  let ?s = "after_op s t (worker_op c)" and ?c = "next_turn c"
  have op: "worker_op ?c = worker_op c" "known_op ?c = known_op c" "w_times ?c = w_times c"
    by (simp_all add: next_turn_def)
  show ?case
  proof (cases "n = 0")
    case True
    with Suc.prems(4) have "w_pc ?c = WClosing" by (simp add: next_turn_def)
    with k True Suc.prems(2) show ?thesis by (intro exI [of _ k]) (simp add: after_op_def)
  next
    case False
    with Suc.prems(4) have "w_pc ?c = WLocking" "w_i ?c + int n = sint (w_times ?c)"
      by (simp_all add: next_turn_def)
    with Suc.IH [of ?c ?s] Suc.prems(2,3) False op obtain k' s' c' where r:
      "k' \<le> 7 * n" "worker_run k' ?s t ?c = Some (s', c')" "w_pc c' = WClosing"
      "bank_mutex s' = None" "workers s' = workers s" "bank_exited s' = bank_exited s"
      "account_balance s' = replay (account_balance ?s) (replicate n (worker_op c))"
      "console s' = console ?s @ statement (account_balance ?s) (replicate n (worker_op c))"
      by auto
    have "worker_run (k + k') s t c = Some (s', c')" using k(2) r(2) by (simp add: worker_run_add)
    moreover have "console ?s = console s @ [op_message (account_balance s) (worker_op c)]"
      by (simp add: after_op_def)
    ultimately show ?thesis using k(1) r by (intro exI [of _ "k + k'"]) simp
  qed
qed simp

lemma worker_step_put:
  "worker_step (put_worker s t c0) t c =
    map_option (\<lambda>(s1, c1). (put_worker s1 t c0, c1)) (worker_step s t c)"
  by (cases "w_pc c"; cases "bank_mutex s")
    (simp_all add: worker_step_def put_worker_def option.map_comp comp_def)

lemma worker_run_events:
  assumes "t < length (workers s)" and "\<not> bank_exited s" and "worker_run n s t c = Some (s1, c1)"
  shows "run_events bank_step (put_worker s t c) (replicate n (WorkerStep t)) =
    Some (put_worker s1 t c1)"
  using assms
proof (induction n arbitrary: s c)
  case (Suc n)
  then obtain s2 c2 where s2: "worker_step s t c = Some (s2, c2)"
    "worker_run n s2 t c2 = Some (s1, c1)" by (auto split: option.splits)
  have "workers s2 = workers s" "bank_exited s2 = bank_exited s"
    using s2(1) worker_step_frame(1) [OF s2(1)]
    by (simp, cases "w_pc c") (auto simp: worker_step_def split: if_splits)
  then have "run_events bank_step (put_worker s2 t c2) (replicate n (WorkerStep t)) =
    Some (put_worker s1 t c1)"
    using Suc.IH [of s2 c2] Suc.prems(1,2) s2(2) by simp
  moreover have "bank_step (put_worker s t c) (WorkerStep t) = Some (put_worker s2 t c2)"
    using Suc.prems(1,2) s2(1)
    by (simp add: bank_step_def worker_step_put) (simp add: put_worker_def)
  ultimately show ?case by simp
qed simp

lemma put_same: "t < length (workers s) \<Longrightarrow> put_worker s t (workers s ! t) = s"
  by (simp add: put_worker_def)

lemma undisturbed_run:
  assumes "t < length (workers s)" and "\<not> bank_exited s" and "w_pc (workers s ! t) = WLocking"
    and "bank_mutex s = None" and "known_op (workers s ! t)"
    and "w_i (workers s ! t) < sint (w_times (workers s ! t))"
    and "n = nat (sint (w_times (workers s ! t)) - w_i (workers s ! t))"
    and "x = worker_op (workers s ! t)"
  shows "\<exists>k \<le> 7 * n + 1. \<exists>s'. run_events bank_step s (replicate k (WorkerStep t)) = Some s' \<and>
    w_pc (workers s' ! t) = WClosed \<and> bank_mutex s' = None \<and>
    account_balance s' = replay (account_balance s) (replicate n x) \<and>
    console s' = console s @ statement (account_balance s) (replicate n x)"
proof -
  let ?c = "workers s ! t"
  have "w_i ?c + int n = sint (w_times ?c)" "0 < n" using assms(6,7) by simp_all
  from worker_turns [OF assms(3,4,5) this, where t = t] assms(8) obtain k s1 c1 where
    r: "k \<le> 7 * n" "worker_run k s t ?c = Some (s1, c1)" "w_pc c1 = WClosing"
      "bank_mutex s1 = None" "workers s1 = workers s" "bank_exited s1 = bank_exited s"
      "account_balance s1 = replay (account_balance s) (replicate n x)"
      "console s1 = console s @ statement (account_balance s) (replicate n x)" by blast
  let ?s2 = "s1\<lparr>closed_sockets := closed_sockets s1 @ [w_socket c1]\<rparr>"
  have "worker_run (k + 1) s t ?c = Some (?s2, c1\<lparr>w_pc := WClosed\<rparr>)"
    using r(2,3) by (simp only: worker_run_add) (simp add: worker_step_def)
  from worker_run_events [OF assms(1,2) this] put_same [OF assms(1)]
  have "run_events bank_step s (replicate (k + 1) (WorkerStep t)) =
    Some (put_worker ?s2 t (c1\<lparr>w_pc := WClosed\<rparr>))" by simp
  with r assms(1) show ?thesis by (intro exI [of _ "k + 1"] conjI exI) (assumption | simp)+
qed

section \<open>Requests\<close>

lemma scan_request:
  assumes "w \<noteq> []" and "\<forall>c \<in> set w. \<not> is_space c"
  shows "sscanf [Percent_s, Space, Percent_d, Space, Percent_d]
    (w @ '' '' @ show_int (sint a) @ '' '' @ show_int (sint n)) = [ConvS w, ConvD a, ConvD n]"
proof -
  have "sscanf [Percent_s, Space, Percent_d, Space, Percent_d]
      (w @ '' '' @ show_int (sint a) @ '' '' @ show_int (sint n)) =
    ConvS w # sscanf [Space, Percent_d, Space, Percent_d]
      ('' '' @ show_int (sint a) @ '' '' @ show_int (sint n))"
    using scan_s_word [OF assms, of "'' '' @ show_int (sint a) @ '' '' @ show_int (sint n)" "[]"]
    by (simp add: stops_word_def)
  also have "\<dots> = ConvS w # ConvD a # sscanf [Space, Percent_d] ('' '' @ show_int (sint n))"
    by (subst sscanf_space_number) (simp_all add: stops_number_def is_digit_def)
  also have "sscanf [Space, Percent_d] ('' '' @ show_int (sint n)) = [ConvD n]"
    using sscanf_space_number [of "'' ''" "[]" "[]" n] by (simp add: stops_number_def)
  finally show ?thesis .
qed

lemma client_request_text:
  assumes "NUL \<notin> set w" and "length w \<le> 200"
  shows "client_request w a n = w @ '' '' @ show_int (sint (atoi a)) @ '' '' @ show_int (sint (atoi n))"
    and "length (client_request w a n) \<le> 224" and "NUL \<notin> set (client_request w a n)"
proof -
  let ?t = "w @ '' '' @ show_int (sint (atoi a)) @ '' '' @ show_int (sint (atoi n))"
  have n: "NUL \<notin> set ?t" and l: "length ?t \<le> 224"
    using assms show_int_no_NUL length_show_int_c_int [of "atoi a"] length_show_int_c_int [of "atoi n"]
    by (auto simp: NUL_def)
  then have "snprintf_at (zeros BUFFER_SIZE) 0 BUFFER_SIZE ?t = overlay (?t @ [NUL]) (zeros BUFFER_SIZE)"
    by (simp add: snprintf_at_def BUFFER_SIZE_def)
  then show t: "client_request w a n = ?t"
    using cstr_overlay [OF n] by (simp only: client_request_def)
  show "length (client_request w a n) \<le> 224" "NUL \<notin> set (client_request w a n)"
    using n l by (simp_all only: t not_False_eq_True)
qed

section \<open>Sample runs\<close>

definition connect_events :: "nat \<Rightarrow> int \<Rightarrow> char list \<Rightarrow> bank_event list" where
  "connect_events t fd req =
    [Accepted fd, MainStep True, MainStep True, MainStep True, WorkerStep t, Receive t req]"

lemma sample_bank:
  "\<exists>s. reachable bank_start bank_step s \<and> length (workers s) = 2 \<and> num_clients s = 2 \<and>
    \<not> bank_exited s \<and> bank_mutex s = None \<and> sint (account_balance s) = 7 \<and>
    (\<forall>c \<in> set (workers s). w_pc c = WClosed \<and> known_op c \<and> 0 \<le> sint (w_amount c)) \<and>
    (\<forall>line \<in> set (console s). \<not> refusal line) \<and>
    (\<Sum>c \<leftarrow> workers s. deposit_limit c) = 10"
  by (rule evaluated_run [where es = "connect_events 0 7 ''deposit 5 2'' @
      connect_events 1 8 ''withdraw 3 1'' @ replicate 13 (WorkerStep 0) @ replicate 8 (WorkerStep 1)"])
    code_simp

lemma sample_storing:
  "\<exists>s. reachable bank_start bank_step s \<and> bank_inside s (Worker 0)"
  by (rule evaluated_run [where es = "connect_events 0 7 ''deposit 5 2'' @
      replicate 3 (WorkerStep 0)"]) code_simp

lemma sample_ready:
  "\<exists>s. reachable bank_start bank_step s \<and> length (workers s) = 1 \<and> \<not> bank_exited s \<and>
    bank_mutex s = None \<and> w_pc (workers s ! 0) = WLocking \<and> known_op (workers s ! 0) \<and>
    w_i (workers s ! 0) = 0 \<and> sint (w_times (workers s ! 0)) = 500 \<and>
    worker_op (workers s ! 0) = Deposit 1 \<and> account_balance s = 0"
  by (rule evaluated_run [where es = "connect_events 0 7 ''deposit 1 500''"]) code_simp

lemma sample_full:
  "n \<le> MAX_CLIENTS \<Longrightarrow> \<exists>s. reachable bank_start bank_step s \<and> num_clients s = n \<and>
    main_pc s = MAccepting \<and> bank_mutex s = None \<and> \<not> bank_exited s"
proof (induction n)
  case 0
  show ?case
    by (rule exI [of _ bank_start])
      (simp add: reachable.start, simp add: bank_start_def mutex_free_def)
next
  case (Suc n)
  then obtain s where s: "reachable bank_start bank_step s" "num_clients s = n"
    "main_pc s = MAccepting" "bank_mutex s = None" "\<not> bank_exited s" by auto
  let ?s = "(register (s\<lparr>bank_mutex := Some MainThread, main_pc := MRegistering 0\<rparr>) 0 True)
    \<lparr>bank_mutex := None, main_pc := MAccepting\<rparr>"
  have "run_events bank_step s [Accepted 0, MainStep True, MainStep True, MainStep True] = Some ?s"
    using s(3-5) Suc.prems s(2) by (simp add: bank_step_def main_step_def register_def Let_def)
  from reachable_run [OF s(1) this] Suc.prems s(2,5) show ?case
    by (intro exI [of _ ?s]) (simp add: register_def Let_def)
qed

section \<open>Properties\<close>

text \<open>
  C4. The server refines an account with atomic deposits and withdrawals: although a deposit is a
  load and a store, every balance in memory is the replay, from zero, of whole operations in the
  order in which they took effect, and lies over a reachable state of that account.
\<close>

theorem bank_refines_account:
  assumes "reachable bank_start bank_step s"
  shows "reachable 0 account_step (account_balance s) \<and> account_balance s = replay 0 (ops s)"
  using lab6_account.abs_reachable [OF assms] lab6_bank.inv_reachable [OF assms]
  unfolding bank_inv_def bank_data_def by blast

theorem bank_refines_account_witness:
  "\<exists>s. reachable bank_start bank_step s \<and> length (workers s) = 2 \<and>
    reachable 0 account_step (account_balance s) \<and> sint (replay 0 (ops s)) = 7"
proof -
  obtain s where "reachable bank_start bank_step s" "length (workers s) = 2"
    "sint (account_balance s) = 7" using sample_bank by blast
  with bank_refines_account [of s] show ?thesis by metis
qed

text \<open>
  C2. When every client has been served and no withdrawal was refused, the balance is the sum over
  the clients of their amount times their number of repetitions, withdrawals counted negative
  (modulo 2^32): no update is lost in any interleaving.
\<close>

theorem no_money_lost:
  assumes "reachable bank_start bank_step s"
    and "\<forall>c \<in> set (workers s). w_pc c = WClosed \<and> known_op c"
    and "\<forall>line \<in> set (console s). \<not> refusal line"
  shows "account_balance s =
    (\<Sum>c \<leftarrow> workers s. of_nat (nat (sint (w_times c))) * effect (worker_op c))"
proof -
  have inv: "bank_data s" "bank_lock_inv s" "bank_counts s"
    using lab6_counts.inv_reachable [OF assms(1)] by (simp_all add: bank_inv_def)
  have "\<not> bank_inside s (Worker t)" for t using assms(2) by (auto dest!: nth_mem)
  then have "bank_mutex s \<noteq> Some (Worker t)" for t
    using inv(2) by (simp only: bank_lock_inv_def not_False_eq_True)
  then have "pending s = []" by (auto simp: pending_def split: option.splits bank_tid.splits)
  then have con: "filter account_line (console s) = statement 0 (ops s)" and bal: "account_balance s = replay 0 (ops s)"
    using inv(1) unfolding bank_data_def by auto
  have "account_balance s = (\<Sum>x \<leftarrow> ops s. effect x)"
    using replay_accepted [of 0 "ops s"] assms(3) bal by (simp flip: con)
  also have "\<dots> = (\<Sum>t < length (workers s). \<Sum>x \<leftarrow> entries s t. effect x)"
    by (rule ops_by_worker [OF inv(3)])
  also have "\<dots> = (\<Sum>t < length (workers s).
    of_nat (nat (sint (w_times (workers s ! t)))) * effect (worker_op (workers s ! t)))"
  proof (rule sum.cong)
    fix t assume t: "t \<in> {..< length (workers s)}"
    then have "counted s t (workers s ! t)" "w_pc (workers s ! t) = WClosed" "known_op (workers s ! t)"
      using inv(3) assms(2) by (simp_all add: bank_counts_def)
    then show "(\<Sum>x \<leftarrow> entries s t. effect x) =
      of_nat (nat (sint (w_times (workers s ! t)))) * effect (worker_op (workers s ! t))"
      using finished_closed [of "workers s ! t"] by (simp add: counted_def sum_list_replicate)
  qed simp
  also have "\<dots> = (\<Sum>c \<leftarrow> workers s. of_nat (nat (sint (w_times c))) * effect (worker_op c))"
    by (simp add: sum_list_sum_nth atLeast0LessThan)
  finally show ?thesis .
qed

theorem no_money_lost_witness:
  "\<exists>s. reachable bank_start bank_step s \<and> length (workers s) = 2 \<and>
    sint (account_balance s) = 7 \<and> account_balance s =
    (\<Sum>c \<leftarrow> workers s. of_nat (nat (sint (w_times c))) * effect (worker_op c))"
proof -
  obtain s where s: "reachable bank_start bank_step s" "length (workers s) = 2"
    "sint (account_balance s) = 7" "\<forall>c \<in> set (workers s). w_pc c = WClosed \<and> known_op c"
    "\<forall>line \<in> set (console s). \<not> refusal line" using sample_bank by blast
  from no_money_lost [OF s(1,4,5)] s(1-3) show ?thesis by blast
qed

text \<open>
  C10. If no client asks for a negative amount and the deposits asked for fit an \<open>int\<close> together, the
  balance is never negative, at no moment of any interleaving.
\<close>

theorem balance_nonneg:
  assumes "reachable bank_start bank_step s" and "\<forall>c \<in> set (workers s). 0 \<le> sint (w_amount c)"
    and "(\<Sum>c \<leftarrow> workers s. deposit_limit c) \<le> 2147483647"
  shows "0 \<le> sint (account_balance s)"
proof -
  have inv: "bank_data s" "bank_counts s"
    using lab6_counts.inv_reachable [OF assms(1)] by (simp_all add: bank_inv_def)
  have "0 \<le> sint (replay 0 (ops s))"
    using ops_amounts [OF inv(2) assms(2)] ops_deposited [OF inv(2) assms(2)] assms(3)
    by (intro replay_nonneg) simp_all
  then show ?thesis using inv(1) unfolding bank_data_def by simp
qed

theorem balance_nonneg_witness:
  "\<exists>s. reachable bank_start bank_step s \<and> length (workers s) = 2 \<and>
    (\<Sum>c \<leftarrow> workers s. deposit_limit c) = 10 \<and> 0 \<le> sint (account_balance s)"
proof -
  obtain s where s: "reachable bank_start bank_step s" "length (workers s) = 2"
    "\<forall>c \<in> set (workers s). 0 \<le> sint (w_amount c)" "(\<Sum>c \<leftarrow> workers s. deposit_limit c) = 10"
    using sample_bank by blast
  from balance_nonneg [OF s(1,3)] s(1,2,4) show ?thesis by (intro exI [of _ s]) simp
qed

text \<open>
  The condition on the amounts is needed: \<open>deposit\<close> is carried out without the check that
  \<open>withdraw\<close> makes, so a client that deposits a negative amount takes the balance below zero.
\<close>

lemma negative_deposit_overdraws:
  "\<exists>s. reachable bank_start bank_step s \<and> sint (account_balance s) = - 5"
  by (rule evaluated_run [where es = "connect_events 0 7 ''deposit -5 1'' @
      replicate 4 (WorkerStep 0)"]) code_simp

text \<open>
  C32. At most one thread, worker or main, is between the lock and the unlock of the mutex, and the
  mutex is never left locked: whoever holds it is inside, and its unlock is still to come.
\<close>

theorem bank_mutex_discipline:
  assumes "reachable bank_start bank_step s"
  shows "bank_inside s x \<longleftrightarrow> bank_mutex s = Some x"
  using lab6_mutex.inv_reachable [OF assms] by (simp add: bank_lock_inv_def)

theorem bank_mutex_discipline_witness:
  "\<exists>s. reachable bank_start bank_step s \<and> bank_inside s (Worker 0) \<and> bank_mutex s = Some (Worker 0)"
  using sample_storing bank_mutex_discipline [of _ "Worker 0"] by blast

text \<open>
  C11. The output of the server. Whenever no thread holds the mutex, the lines about the account are
  its statement: one line per operation, in the order in which they took effect, each with the
  balance after that operation, or with the refusal and the balance that did not suffice. The other
  lines are the port, printed once and first, one \<open>Client connected\<close> for every client in the table,
  rejections only when the table is full, and the shutdown line exactly when the server was
  interrupted.
\<close>

theorem console_is_statement:
  assumes "reachable bank_start bank_step s" and "bank_mutex s = None"
  shows "filter account_line (console s) = statement 0 (ops s) \<and>
    (\<exists>rest. console s = msg_listening # rest \<and> msg_listening \<notin> set rest) \<and>
    count_list (console s) msg_connected = num_clients s \<and>
    (msg_full \<in> set (console s) \<longrightarrow> num_clients s = MAX_CLIENTS) \<and>
    count_list (console s) msg_shutdown = (if shutdown_at s = NoSignal then 0 else 1)"
proof -
  have "bank_data s" using lab6_bank.inv_reachable [OF assms(1)] by (simp add: bank_inv_def)
  moreover have "pending s = []" using assms(2) by (simp add: pending_def)
  moreover have "num_clients s \<le> MAX_CLIENTS"
    using lab6_slots.inv_reachable [OF assms(1)] by (simp add: slots_ok_def)
  ultimately show ?thesis
    using lab6_console.inv_reachable [OF assms(1)] unfolding bank_data_def console_ok_def by auto
qed

theorem console_is_statement_witness:
  "\<exists>s. reachable bank_start bank_step s \<and> num_clients s = 2 \<and>
    sint (account_balance s) = 7 \<and> filter account_line (console s) = statement 0 (ops s) \<and>
    count_list (console s) msg_connected = 2"
proof -
  obtain s where s: "reachable bank_start bank_step s" "bank_mutex s = None" "num_clients s = 2"
    "sint (account_balance s) = 7" using sample_bank by blast
  with console_is_statement [OF s(1,2)] show ?thesis by (intro exI [of _ s]) simp
qed

text \<open>
  C12. A client whose thread runs undisturbed is served completely: after at most 7 steps per
  repetition and one for the close, its operation has been carried out as often as it asked,
  every output line is printed, the mutex is free again and the thread has finished.
\<close>

theorem undisturbed_client_served:
  assumes "t < length (workers s)" and "\<not> bank_exited s" and "w_pc (workers s ! t) = WLocking"
    and "bank_mutex s = None" and "known_op (workers s ! t)"
    and "w_i (workers s ! t) < sint (w_times (workers s ! t))"
    and "n = nat (sint (w_times (workers s ! t)) - w_i (workers s ! t))"
    and "x = worker_op (workers s ! t)"
  shows "\<exists>k \<le> 7 * n + 1. \<exists>s'. run_events bank_step s (replicate k (WorkerStep t)) = Some s' \<and>
    w_pc (workers s' ! t) = WClosed \<and> bank_mutex s' = None \<and>
    account_balance s' = replay (account_balance s) (replicate n x) \<and>
    console s' = console s @ statement (account_balance s) (replicate n x)"
  using assms by (rule undisturbed_run)

theorem undisturbed_client_served_witness:
  "\<exists>s. reachable bank_start bank_step s \<and> w_pc (workers s ! 0) = WClosed \<and>
    account_balance s = replay 0 (replicate 500 (Deposit 1))"
proof -
  obtain s where s: "reachable bank_start bank_step s" "length (workers s) = 1" "\<not> bank_exited s"
    "bank_mutex s = None" "w_pc (workers s ! 0) = WLocking" "known_op (workers s ! 0)"
    "w_i (workers s ! 0) = 0" "sint (w_times (workers s ! 0)) = 500"
    "worker_op (workers s ! 0) = Deposit 1" "account_balance s = 0" using sample_ready by blast
  have "0 < length (workers s)" "w_i (workers s ! 0) < sint (w_times (workers s ! 0))"
    "500 = nat (sint (w_times (workers s ! 0)) - w_i (workers s ! 0))"
    using s(2,7,8) by simp_all
  from undisturbed_client_served [OF this(1) s(3,5,4,6) this(2,3) s(9) [symmetric]] s(10)
  obtain k s' where "run_events bank_step s (replicate k (WorkerStep 0)) = Some s'"
    "w_pc (workers s' ! 0) = WClosed"
    "account_balance s' = replay 0 (replicate 500 (Deposit 1))" by auto
  with reachable_run [OF s(1)] show ?thesis by blast
qed

text \<open>
  The request the client builds from its arguments is parsed back by the server.
\<close>

lemma client_request_parsed:
  assumes "w \<noteq> []" and "\<forall>c \<in> set w. \<not> is_space c" and "NUL \<notin> set w" and "length w < 20"
  shows "length (client_request w a n) \<le> BUFFER_SIZE - 1 \<and>
    read_request c (client_request w a n) = c\<lparr>w_operation := w, w_amount := atoi a,
      w_times := atoi n, w_i := 0, w_pc := (if 0 < sint (atoi n) then WLocking else WClosing)\<rparr>"
proof -
  have w: "length w \<le> 200" using assms(4) by simp
  note r = client_request_text [OF assms(3) w, where a = a and n = n]
  have "cstr (client_request w a n @ [NUL]) = client_request w a n"
    using r(3) by (simp add: cstr_append)
  moreover have "client_request w a n \<noteq> []" using assms(1) by (simp add: r(1))
  ultimately have "read_request c (client_request w a n) = c\<lparr>w_operation := w, w_amount := atoi a,
      w_times := atoi n, w_i := 0, w_pc := (if 0 < sint (atoi n) then WLocking else WClosing)\<rparr>"
    using scan_request [OF assms(1,2), of "atoi a" "atoi n"] assms(4)
    by (simp add: read_request_def r(1) del: sscanf.simps)
  with r(2) show ?thesis by (simp add: BUFFER_SIZE_def)
qed

text \<open>
  A longer operation: its first 255 characters are a word of 20 or more, whatever follows.
\<close>

lemma client_request_cut:
  assumes "NUL \<notin> set w"
  shows "client_request w a n =
    take 255 (w @ '' '' @ show_int (sint (atoi a)) @ '' '' @ show_int (sint (atoi n)))"
proof -
  let ?t = "w @ '' '' @ show_int (sint (atoi a)) @ '' '' @ show_int (sint (atoi n))"
  have "NUL \<notin> set ?t" using assms show_int_no_NUL by (auto simp: NUL_def)
  then have "NUL \<notin> set (take 255 ?t)" by (meson in_set_takeD)
  moreover have "snprintf_at (zeros BUFFER_SIZE) 0 BUFFER_SIZE ?t =
      overlay (take 255 ?t @ [NUL]) (zeros BUFFER_SIZE)"
    by (simp add: snprintf_at_def BUFFER_SIZE_def)
  ultimately show ?thesis using cstr_overlay by (simp only: client_request_def)
qed

lemma length_client_request: "NUL \<notin> set w \<Longrightarrow> length (client_request w a n) < BUFFER_SIZE"
  by (simp add: client_request_cut BUFFER_SIZE_def)

lemma long_operation_overruns:
  assumes "w \<noteq> []" and "\<forall>c \<in> set w. \<not> is_space c" and "NUL \<notin> set w" and "\<not> length w < 20"
  shows "w_pc (read_request c (client_request w a n)) = WUndefined"
proof -
  let ?w = "take 255 w" and ?r = "take (255 - length w)
      ('' '' @ show_int (sint (atoi a)) @ '' '' @ show_int (sint (atoi n)))"
  let ?ds = "[Space, Percent_d, Space, Percent_d]"
  have req: "client_request w a n = ?w @ ?r" using client_request_cut [OF assms(3)] by simp
  have "NUL \<notin> set (client_request w a n)"
    using assms(3) show_int_no_NUL unfolding client_request_cut [OF assms(3)]
    by (auto simp: NUL_def dest!: in_set_takeD)
  then have "cstr (client_request w a n @ [NUL]) = ?w @ ?r" using req by (simp add: cstr_append)
  moreover have "stops_word ?r" by (cases "255 - length w") (simp_all add: stops_word_def)
  moreover have w: "?w \<noteq> []" "\<forall>c \<in> set ?w. \<not> is_space c" using assms(1,2) by (auto dest: in_set_takeD)
  ultimately have "sscanf (Percent_s # ?ds) (cstr (client_request w a n @ [NUL])) =
      ConvS ?w # sscanf ?ds ?r" using scan_s_word [of ?w ?r "[]"] by simp
  moreover have "client_request w a n \<noteq> []" using w(1) req by simp
  moreover have "\<not> length ?w < 20" using assms(4) by simp
  ultimately show ?thesis
    by (simp add: read_request_def del: sscanf.simps split: list.splits conversion.splits)
qed

text \<open>
  C31. What the server makes of a request of the client program, for an operation that is one word
  (not empty, no white space). When the client leaves with status 0, the last it did was to send one
  request of at most 255 bytes over its connection to port 8888 and to close it. If the operation
  has fewer than 20 characters, the thread of the server that reads this request takes from it the
  operation and the two numbers given on the command line of the client, whatever 32-bit values
  \<open>atoi\<close> gives for them; if it is longer, the thread writes past \<open>operation[20]\<close> (server.c:36, 42), of
  which the client learns nothing.
\<close>

theorem client_request_understood:
  assumes "snd (lab6_client_main argv ans) = Exit 0"
    and "argv ! 3 \<noteq> []" and "\<forall>c \<in> set (argv ! 3). \<not> is_space c" and "NUL \<notin> set (argv ! 3)"
  shows "\<exists>request. fst (lab6_client_main argv ans) =
      [Socket, InetAddr ''127.0.0.1'', Connect (ans Socket) ''127.0.0.1'' (htons 8888),
       Send (ans Socket) request, Close (ans Socket)] \<and>
    length request < BUFFER_SIZE \<and>
    (if length (argv ! 3) < 20
     then read_request c request = c\<lparr>w_operation := argv ! 3, w_amount := atoi (argv ! 4),
       w_times := atoi (argv ! 5), w_i := 0,
       w_pc := (if 0 < sint (atoi (argv ! 5)) then WLocking else WClosing)\<rparr>
     else w_pc (read_request c request) = WUndefined)"
proof -
  let ?r = "client_request (argv ! 3) (argv ! 4) (argv ! 5)"
  have "fst (lab6_client_main argv ans) =
      [Socket, InetAddr ''127.0.0.1'', Connect (ans Socket) ''127.0.0.1'' (htons 8888),
       Send (ans Socket) ?r, Close (ans Socket)]"
    using assms(1) by (auto simp: lab6_client_main_def PORT_def EXIT_FAILURE_def split: if_splits)
  moreover have "length ?r < BUFFER_SIZE" using length_client_request [OF assms(4)] .
  ultimately show ?thesis
    using client_request_parsed [OF assms(2-4), of "argv ! 4" "argv ! 5" c]
      long_operation_overruns [OF assms(2-4), of c "argv ! 4" "argv ! 5"]
    by (intro exI [of _ ?r]) auto
qed

theorem client_request_understood_witness:
  "\<exists>request. fst (lab6_client_main [''client'', ''10.0.0.7'', ''9'', ''withdraw'', ''2'', ''500''] granting_kernel) =
      [Socket, InetAddr ''127.0.0.1'', Connect 3 ''127.0.0.1'' (htons 8888),
       Send 3 request, Close 3] \<and>
    read_request new_worker request =
      new_worker\<lparr>w_operation := ''withdraw'', w_amount := 2, w_times := 500, w_pc := WLocking\<rparr>"
proof -
  let ?argv = "[''client'', ''10.0.0.7'', ''9'', ''withdraw'', ''2'', ''500'']"
  have "snd (lab6_client_main ?argv granting_kernel) = Exit 0"
    by (simp add: lab6_client_main_def granting_kernel_def)
  moreover have "?argv ! 3 \<noteq> []" by simp
  moreover have "\<forall>c \<in> set (?argv ! 3). \<not> is_space c" by (simp add: is_space_def)
  moreover have "NUL \<notin> set (?argv ! 3)" by (simp add: NUL_def)
  ultimately obtain request where r: "fst (lab6_client_main ?argv granting_kernel) =
      [Socket, InetAddr ''127.0.0.1'', Connect (granting_kernel Socket) ''127.0.0.1'' (htons 8888),
       Send (granting_kernel Socket) request, Close (granting_kernel Socket)]"
    and q: "if length (?argv ! 3) < 20
      then read_request new_worker request = new_worker\<lparr>w_operation := ?argv ! 3,
        w_amount := atoi (?argv ! 4), w_times := atoi (?argv ! 5), w_i := 0,
        w_pc := (if 0 < sint (atoi (?argv ! 5)) then WLocking else WClosing)\<rparr>
      else w_pc (read_request new_worker request) = WUndefined"
    using client_request_understood [of ?argv granting_kernel new_worker] by blast
  have "atoi ''2'' = 2" "atoi ''500'' = 500" by (simp_all add: number_eval)
  then show ?thesis using r q by (simp add: granting_kernel_def new_worker_def)
qed

text \<open>
  The table of 100 slots is never overrun, and every started thread serves the socket that was
  stored in its slot when it was created: no later connection overwrites it.
\<close>

lemma slots_keep_sockets:
  assumes "reachable bank_start bank_step s"
  shows "num_clients s = length (workers s) \<and> num_clients s \<le> length (client_sockets s) \<and>
    (\<forall>t < num_clients s. w_pc (workers s ! t) \<noteq> WStart \<longrightarrow>
      w_socket (workers s ! t) = client_sockets s ! t)"
  using lab6_slots.inv_reachable [OF assms] by (auto simp: slots_ok_def)

text \<open>
  The server accepts 100 clients in its whole life: \<open>num_clients\<close> is never decremented, so once
  the table is full every later connection is rejected, also after all clients have left.
\<close>

lemma full_for_ever:
  assumes "reachable bank_start bank_step s" and "num_clients s = MAX_CLIENTS"
    and "run_events bank_step s es = Some s'"
  shows "num_clients s' = MAX_CLIENTS \<and> length (workers s') = MAX_CLIENTS"
proof -
  have ok: "slots_ok s" using lab6_slots.inv_reachable [OF assms(1)] .
  have "num_clients s' = MAX_CLIENTS" by (rule full_run [OF ok assms(3,2)])
  moreover have "slots_ok s'" using lab6_slots.inv_run [OF ok assms(3)] .
  ultimately show ?thesis by (simp add: slots_ok_def)
qed

end
