(* ===== verification/Lab7_Guess.thy ===== *)
theory Lab7_Guess
  imports CLib
begin

text \<open>
  The guessing game of \<open>lab7/game.c\<close> and \<open>lab7/guess.c\<close>: two processes that share one memory
  segment and notify each other with \<open>SIGUSR1\<close>. The game compares the guess with its secret and
  writes a verdict; the guesser bisects its interval, once per expiry of its timer.

  A standard signal is pending at most once (\<open>usr1_game\<close>, \<open>usr1_guess\<close>) and is blocked while its
  handler runs. The handler of the game reads the shared guess in its first test, again in its
  second test and again for its output, so it is split at these points; the guesser's two handlers
  belong to one process and are one step each. The segment's first contents are a parameter: a
  new segment is zero, an old one holds what an earlier game left.
\<close>

section \<open>State\<close>

datatype game_pc =
    GIdle
  | GTestLess
  | GTestGreater
  | GWrite "char list"
  | GPrint "char list"
  | GKill
  | GUndefined

record guessing =
  shm_guess :: c_int
  shm_result :: "char list"
  guess_truth :: c_int
  lower_bound :: c_int
  upper_bound :: c_int
  usr1_game :: bool
  usr1_guess :: bool
  game_pc :: game_pc
  game_exited :: bool
  guess_exited :: bool
  game_output :: "char list list"

definition SHM_RESULT_SIZE :: nat where "SHM_RESULT_SIZE = 8"

text \<open>
  Both programs started with their arguments: \<open>game <key> <secret>\<close> and
  \<open>guess <key> <upper_bound> <pid>\<close>.
\<close>

definition guessing_start :: "c_int \<Rightarrow> c_int \<Rightarrow> c_int \<Rightarrow> char list \<Rightarrow> guessing" where
  "guessing_start secret upper guess0 result0 = \<lparr>shm_guess = guess0, shm_result = result0,
    guess_truth = secret, lower_bound = 1, upper_bound = upper, usr1_game = False,
    usr1_guess = False, game_pc = GIdle, game_exited = False, guess_exited = False,
    game_output = []\<rparr>"

text \<open>The arguments are read with \<open>sscanf (argv[i], "%d", \<dots>)\<close>; an unreadable one leaves the default.\<close>

definition read_argument :: "c_int \<Rightarrow> char list \<Rightarrow> c_int" where
  "read_argument old arg = (case sscanf [Percent_d] arg of ConvD v # _ \<Rightarrow> v | _ \<Rightarrow> old)"

definition game_setup :: "char list \<Rightarrow> char list \<Rightarrow> c_int \<Rightarrow> char list \<Rightarrow> guessing" where
  "game_setup secret_arg upper_arg guess0 result0 =
    guessing_start (read_argument 0 secret_arg) (read_argument 0 upper_arg) guess0 result0"

section \<open>The game\<close>

text \<open>\<open>strcpy (shm->result, \<dots>)\<close>\<close>

definition write_result :: "guessing \<Rightarrow> char list \<Rightarrow> guessing" where
  "write_result s r =
    (case strcpy (shm_result s) r of
       None \<Rightarrow> s\<lparr>game_pc := GUndefined\<rparr>
     | Some b \<Rightarrow> s\<lparr>shm_result := b, game_pc := GPrint r\<rparr>)"

definition guess_line :: "c_int \<Rightarrow> char list \<Rightarrow> char list" where
  "guess_line g r = ''[game] Guess '' @ show_int (sint g) @ '', '' @ r @ [CHR 0x0A]"

text \<open>One step of the handler of the game; the last is the \<open>kill\<close> that notifies the guesser.\<close>

definition game_step :: "guessing \<Rightarrow> guessing option" where
  "game_step s =
    (case game_pc s of
       GTestLess \<Rightarrow>
         Some (s\<lparr>game_pc := (if sint (shm_guess s) < sint (guess_truth s)
                            then GWrite ''larger'' else GTestGreater)\<rparr>)
     | GTestGreater \<Rightarrow>
         Some (s\<lparr>game_pc := (if sint (guess_truth s) < sint (shm_guess s)
                            then GWrite ''smaller'' else GWrite ''bingo'')\<rparr>)
     | GWrite r \<Rightarrow> Some (write_result s r)
     | GPrint r \<Rightarrow> Some (s\<lparr>game_output := game_output s @ [guess_line (shm_guess s) r], game_pc := GKill\<rparr>)
     | GKill \<Rightarrow> Some (s\<lparr>usr1_guess := \<not> guess_exited s, game_pc := GIdle\<rparr>)
     | _ \<Rightarrow> None)"

text \<open>\<open>SIGINT\<close>: the segment is removed and the process exits.\<close>

definition cleanup :: "guessing \<Rightarrow> guessing" where
  "cleanup s = s\<lparr>game_exited := True\<rparr>"

section \<open>The guesser\<close>

text \<open>\<open>x / 2\<close> on \<open>int\<close>, towards zero.\<close>

definition half :: "c_int \<Rightarrow> c_int" where
  "half x = (if 0 \<le> sint x then word_of_int (sint x div 2) else word_of_int (- (- sint x div 2)))"

definition timer_handler :: "guessing \<Rightarrow> guessing" where
  "timer_handler s = s\<lparr>shm_guess := half (upper_bound s + lower_bound s),
    usr1_game := \<not> game_exited s\<rparr>"

definition guess_handler :: "guessing \<Rightarrow> guessing" where
  "guess_handler s =
    (let s1 = s\<lparr>usr1_guess := False\<rparr>
     in if strcmp_eq (shm_result s) ''larger'' then s1\<lparr>lower_bound := shm_guess s\<rparr>
        else if strcmp_eq (shm_result s) ''smaller'' then s1\<lparr>upper_bound := shm_guess s\<rparr>
        else s1\<lparr>guess_exited := True\<rparr>)"

section \<open>Steps\<close>

datatype guess_event = GTimer | GameSignal | GameStep | GuessSignal | GameInterrupt

fun guess_step :: "guessing \<Rightarrow> guess_event \<Rightarrow> guessing option" where
  "guess_step s GTimer = (if guess_exited s then None else Some (timer_handler s))"
| "guess_step s GameSignal =
    (if usr1_game s \<and> game_pc s = GIdle \<and> \<not> game_exited s
     then Some (s\<lparr>usr1_game := False, game_pc := GTestLess\<rparr>) else None)"
| "guess_step s GameStep = (if game_exited s then None else game_step s)"
| "guess_step s GuessSignal =
    (if usr1_guess s \<and> \<not> guess_exited s then Some (guess_handler s) else None)"
| "guess_step s GameInterrupt = (if game_exited s then None else Some (cleanup s))"

section \<open>Bisection\<close>

text \<open>The numbers for which nothing overflows.\<close>

definition small :: "c_int \<Rightarrow> bool" where
  "small x \<longleftrightarrow> 1 \<le> sint x \<and> sint x \<le> 1073741823"

lemma sint_half_sum:
  assumes "small l" and "small u"
  shows "sint (half (u + l)) = (sint u + sint l) div 2"
proof -
  have "sint (u + l) = sint u + sint l" using assms by (intro sint_add_c_int) (auto simp: small_def)
  moreover have "sint (word_of_int ((sint u + sint l) div 2) :: c_int) = (sint u + sint l) div 2"
    using assms unfolding small_def by (intro sint_word_of_int_c_int) linarith+
  ultimately show ?thesis using assms by (simp add: half_def small_def)
qed

lemma half_between:
  assumes "small l" and "small u" and "sint l < sint u"
  shows "sint l \<le> sint (half (u + l))" and "sint (half (u + l)) < sint u" and "small (half (u + l))"
  using assms by (auto simp: sint_half_sum small_def)

text \<open>Nothing is under way: no signal pending, no handler running.\<close>

definition quiet :: "guessing \<Rightarrow> bool" where
  "quiet s \<longleftrightarrow> \<not> usr1_game s \<and> \<not> usr1_guess s \<and> game_pc s = GIdle \<and>
    \<not> game_exited s \<and> \<not> guess_exited s \<and> length (shm_result s) = SHM_RESULT_SIZE"

text \<open>One undisturbed round, from the expiry of the timer to the end of the guesser's handler.\<close>

definition round_events :: "guessing \<Rightarrow> guess_event list" where
  "round_events s =
    [GTimer, GameSignal] @
    replicate (if sint (half (upper_bound s + lower_bound s)) < sint (guess_truth s) then 4 else 5)
      GameStep @ [GuessSignal]"

definition round_result :: "guessing \<Rightarrow> guessing \<Rightarrow> bool" where
  "round_result s s' \<longleftrightarrow>
    (let g = half (upper_bound s + lower_bound s)
     in shm_guess s' = g \<and> guess_truth s' = guess_truth s \<and>
       (if sint g < sint (guess_truth s)
        then quiet s' \<and> lower_bound s' = g \<and> upper_bound s' = upper_bound s
        else if sint (guess_truth s) < sint g
        then quiet s' \<and> lower_bound s' = lower_bound s \<and> upper_bound s' = g
        else guess_exited s' \<and> game_output s' = game_output s @ [guess_line g ''bingo'']))"

lemma verdict_fits:
  assumes "length b = SHM_RESULT_SIZE" and "NUL \<notin> set r" and "length r < SHM_RESULT_SIZE"
  shows "strcpy b r = Some (overlay (r @ [NUL]) b)" "length (overlay (r @ [NUL]) b) = SHM_RESULT_SIZE"
    "cstr (overlay (r @ [NUL]) b) = r"
  using assms by (simp_all add: strcpy_def cstr_id length_overlay cstr_overlay)

declare round_events_def [run_simps] round_result_def [run_simps] timer_handler_def [run_simps]
  game_step_def [run_simps] write_result_def [run_simps] guess_handler_def [run_simps]
  quiet_def [run_simps] SHM_RESULT_SIZE_def [run_simps]

lemma one_round:
  assumes "quiet s"
  shows "\<exists>s'. run_events guess_step s (round_events s) = Some s' \<and> round_result s s'"
proof -
  let ?g = "half (upper_bound s + lower_bound s)"
  have q: "\<not> game_exited s" "\<not> guess_exited s" "game_pc s = GIdle" "\<not> usr1_game s" "\<not> usr1_guess s"
    "length (shm_result s) = SHM_RESULT_SIZE" using assms by (simp_all add: quiet_def)
  note v = verdict_fits [OF q(6)]
  consider (less) "sint ?g < sint (guess_truth s)"
    | (greater) "\<not> sint ?g < sint (guess_truth s)" "sint (guess_truth s) < sint ?g"
    | (equal) "\<not> sint ?g < sint (guess_truth s)" "\<not> sint (guess_truth s) < sint ?g" by linarith
  then show ?thesis
  proof cases
    case less
    with q v [of "''larger''"] show ?thesis by (simp add: run_simps numeral_eq_Suc Let_def NUL_def)
  next
    case greater
    with q v [of "''smaller''"] show ?thesis by (simp add: run_simps numeral_eq_Suc Let_def NUL_def)
  next
    case equal
    with q v [of "''bingo''"] show ?thesis by (simp add: run_simps numeral_eq_Suc Let_def NUL_def)
  qed
qed

end
