(* ===== verification/Lab7_Theorems.thy ===== *)
theory Lab7_Theorems
  imports Lab7_Guess
begin

text \<open>
  The bisection of the guessing game: it finds the secret in logarithmically many undisturbed
  rounds, never finds a secret that is the upper bound itself, and two races of the handlers,
  one that loses the secret and one that announces a wrong number.
\<close>

section \<open>Undisturbed rounds\<close>

lemma round_length: "length (round_events s) \<le> 8"
  by (simp add: round_events_def)

lemma half_interval:
  fixes l u :: int
  assumes "u - l \<le> 2 ^ Suc k"
  shows "(u + l) div 2 - l \<le> 2 ^ k" and "u - (u + l) div 2 \<le> 2 ^ k"
  using assms by simp_all

lemma bisection_run:
  assumes "quiet s" and "small (lower_bound s)" and "small (upper_bound s)"
    and "sint (lower_bound s) \<le> sint (guess_truth s)"
    and "sint (guess_truth s) < sint (upper_bound s)"
    and "sint (upper_bound s) - sint (lower_bound s) \<le> 2 ^ k"
  shows "\<exists>es s'. run_events guess_step s es = Some s' \<and> length es \<le> 8 * Suc k \<and>
    guess_exited s' \<and> shm_guess s' = guess_truth s \<and>
    last (game_output s') = guess_line (guess_truth s) ''bingo''"
  using assms
proof (induction k arbitrary: s)
  case 0
  let ?g = "half (upper_bound s + lower_bound s)"
  have "sint ?g = (sint (upper_bound s) + sint (lower_bound s)) div 2"
    by (rule sint_half_sum [OF 0(2,3)])
  with 0(4-6) have g: "?g = guess_truth s" by (intro c_int_eqI) simp
  from one_round [OF 0(1)] obtain s' where
    s': "run_events guess_step s (round_events s) = Some s'" "round_result s s'" by blast
  with g round_length [of s] show ?case
    by (intro exI [of _ "round_events s"] exI [of _ s']) (simp add: round_result_def Let_def)
next
  case (Suc k)
  let ?g = "half (upper_bound s + lower_bound s)"
  have ge: "sint ?g = (sint (upper_bound s) + sint (lower_bound s)) div 2"
    by (rule sint_half_sum [OF Suc.prems(2,3)])
  have lu: "sint (lower_bound s) < sint (upper_bound s)" using Suc.prems(4,5) by simp
  note b = half_between [OF Suc.prems(2,3) lu]
  note h = half_interval [OF Suc.prems(6), folded ge]
  from one_round [OF Suc.prems(1)] obtain s1 where
    s1: "run_events guess_step s (round_events s) = Some s1" "round_result s s1" by blast
  show ?case
  proof (cases "?g = guess_truth s")
    case True
    with s1 round_length [of s] show ?thesis
      by (intro exI [of _ "round_events s"] exI [of _ s1]) (simp add: round_result_def Let_def)
  next
    case False
    then have "sint ?g \<noteq> sint (guess_truth s)" using c_int_eqI by blast
    then have "quiet s1 \<and> small (lower_bound s1) \<and> small (upper_bound s1) \<and>
      sint (lower_bound s1) \<le> sint (guess_truth s1) \<and>
      sint (guess_truth s1) < sint (upper_bound s1) \<and>
      sint (upper_bound s1) - sint (lower_bound s1) \<le> 2 ^ k \<and> guess_truth s1 = guess_truth s"
      using s1(2) Suc.prems b h
      by (cases "sint ?g < sint (guess_truth s)") (simp_all add: round_result_def Let_def)
    with Suc.IH [of s1] obtain es s' where
      r: "run_events guess_step s1 es = Some s'" "length es \<le> 8 * Suc k" "guess_exited s'"
        "shm_guess s' = guess_truth s" "last (game_output s') = guess_line (guess_truth s) ''bingo''"
      by auto
    have "run_events guess_step s (round_events s @ es) = Some s'"
      using s1(1) r(1) by (simp add: run_events_append)
    with r round_length [of s] show ?thesis
      by (intro exI [of _ "round_events s @ es"] exI [of _ s']) simp
  qed
qed

section \<open>A secret outside the interval\<close>

fun only_larger :: "game_pc \<Rightarrow> char list \<Rightarrow> bool" where
  "only_larger GIdle r \<longleftrightarrow> True"
| "only_larger GTestLess r \<longleftrightarrow> True"
| "only_larger (GWrite v) r \<longleftrightarrow> v = ''larger''"
| "only_larger (GPrint v) r \<longleftrightarrow> v = ''larger'' \<and> cstr r = ''larger''"
| "only_larger GKill r \<longleftrightarrow> cstr r = ''larger''"
| "only_larger _ r \<longleftrightarrow> False"

definition below_secret :: "guessing \<Rightarrow> bool" where
  "below_secret s \<longleftrightarrow> sint (lower_bound s) \<le> sint (shm_guess s) \<and>
    sint (shm_guess s) \<le> sint (upper_bound s) \<and> sint (shm_guess s) < sint (guess_truth s)"

text \<open>The whole interval lies below the secret, and every verdict under way says \<open>larger\<close>.\<close>

definition lost :: "guessing \<Rightarrow> bool" where
  "lost s \<longleftrightarrow> small (lower_bound s) \<and> small (upper_bound s) \<and>
    sint (lower_bound s) \<le> sint (upper_bound s) \<and> sint (lower_bound s) < sint (guess_truth s) \<and>
    sint (upper_bound s) \<le> sint (guess_truth s) \<and>
    \<not> guess_exited s \<and> length (shm_result s) = SHM_RESULT_SIZE \<and>
    (usr1_game s \<or> usr1_guess s \<or> game_pc s \<noteq> GIdle \<longrightarrow> below_secret s) \<and>
    (usr1_guess s \<longrightarrow> cstr (shm_result s) = ''larger'') \<and> only_larger (game_pc s) (shm_result s)"

lemma lost_timer:
  assumes "lost s" shows "lost (timer_handler s)"
proof -
  let ?g = "half (upper_bound s + lower_bound s)"
  have "sint ?g = (sint (upper_bound s) + sint (lower_bound s)) div 2"
    using assms by (intro sint_half_sum) (simp_all add: lost_def)
  with assms have "below_secret (timer_handler s)"
    by (auto simp: lost_def below_secret_def timer_handler_def)
  with assms show ?thesis by (auto simp: lost_def timer_handler_def)
qed

lemma lost_game:
  assumes "lost s" and "game_step s = Some s'" shows "lost s'"
proof -
  note v = verdict_fits [of "shm_result s" "''larger''"]
  show ?thesis
  proof (cases "game_pc s")
    case (GWrite r)
    with assms v show ?thesis
      by (auto simp: lost_def game_step_def write_result_def below_secret_def SHM_RESULT_SIZE_def NUL_def)
  qed (use assms in \<open>auto simp: lost_def game_step_def below_secret_def split: if_splits\<close>)
qed

lemma lost_guess:
  assumes "lost s" and "usr1_guess s" shows "lost (guess_handler s)"
  using assms by (auto simp: lost_def guess_handler_def below_secret_def small_def NUL_def Let_def)

lemma lost_step:
  assumes "lost s" and "guess_step s e = Some s'" shows "lost s'"
proof (cases e)
  case GTimer
  with assms lost_timer show ?thesis by (auto split: if_splits)
next
  case GameSignal
  with assms show ?thesis by (auto simp: lost_def below_secret_def split: if_splits)
next
  case GameStep
  with assms lost_game show ?thesis by (auto split: if_splits)
next
  case GuessSignal
  with assms lost_guess show ?thesis by (auto split: if_splits)
next
  case GameInterrupt
  with assms show ?thesis by (auto simp: cleanup_def lost_def below_secret_def split: if_splits)
qed

text \<open>The start of a game whose secret is at or above the upper bound.\<close>

definition secret_too_large :: "c_int \<Rightarrow> c_int \<Rightarrow> char list \<Rightarrow> bool" where
  "secret_too_large secret upper result0 \<longleftrightarrow> 1 < sint upper \<and> small upper \<and>
    sint upper \<le> sint secret \<and> length result0 = SHM_RESULT_SIZE"

interpretation lab7_lost: inductive_invariant "guessing_start secret upper guess0 result0" guess_step
  "\<lambda>s. secret_too_large secret upper result0 \<longrightarrow> lost s" for secret upper guess0 result0
proof unfold_locales
  show "secret_too_large secret upper result0 \<longrightarrow> lost (guessing_start secret upper guess0 result0)"
    by (simp add: secret_too_large_def lost_def guessing_start_def small_def)
qed (blast intro: lost_step)

lemma lost_run: "lost s \<Longrightarrow> run_events guess_step s es = Some s' \<Longrightarrow> lost s'"
proof (induction es arbitrary: s)
  case (Cons e es)
  then show ?case by (auto split: option.splits intro: lost_step)
qed simp

lemma guess_truth_kept: "guess_step s e = Some s' \<Longrightarrow> guess_truth s' = guess_truth s"
  by (cases e)
    (auto simp: timer_handler_def guess_handler_def cleanup_def game_step_def write_result_def Let_def
      split: if_splits game_pc.splits option.splits)

section \<open>Properties\<close>

text \<open>
  C33. The bisection is right and fast: from a start with 1 <= secret < upper bound <= 2^30 - 1 and an
  interval of at most 2^k numbers, k + 1 undisturbed rounds (at most 8 steps each) end with the
  guesser gone, the secret in shared memory and announced as found.
\<close>

theorem bisection_finds:
  assumes "1 \<le> sint secret" and "sint secret < sint upper" and "sint upper \<le> 1073741823"
    and "sint upper - 1 \<le> 2 ^ k" and "length result0 = SHM_RESULT_SIZE"
  shows "\<exists>es s'. run_events guess_step (guessing_start secret upper guess0 result0) es = Some s' \<and>
    length es \<le> 8 * Suc k \<and> guess_exited s' \<and> shm_guess s' = secret \<and>
    last (game_output s') = guess_line secret ''bingo''"
  using bisection_run [of "guessing_start secret upper guess0 result0" k] assms
  by (simp add: guessing_start_def quiet_def small_def)

theorem bisection_finds_witness:
  "\<exists>es s'. run_events guess_step (guessing_start 43 100 0 (zeros 8)) es = Some s' \<and>
    length es \<le> 64 \<and> guess_exited s' \<and> shm_guess s' = 43"
  using bisection_finds [of 43 100 7 "zeros 8" 0] by (auto simp: SHM_RESULT_SIZE_def)

text \<open>One round of the game and the second guess.\<close>

lemma second_guess:
  "\<exists>s. reachable (guessing_start 100 100 0 (zeros 8)) guess_step s \<and> sint (lower_bound s) = 50 \<and>
    sint (shm_guess s) = 75"
  by (rule evaluated_run [where es = "[GTimer, GameSignal, GameStep, GameStep, GameStep, GameStep,
      GuessSignal, GTimer]"]) code_simp

text \<open>
  C34. A secret that equals the upper bound, or exceeds it, is never found: in no interleaving of the
  two processes does the guesser stop, because a guess that is too small becomes the new lower
  bound itself and the upper bound is never guessed.
\<close>

theorem upper_bound_never_found:
  assumes "secret_too_large secret upper result0"
    and "reachable (guessing_start secret upper guess0 result0) guess_step s"
  shows "\<not> guess_exited s \<and> sint (upper_bound s) \<le> sint secret"
proof -
  have "lost s" using lab7_lost.inv_reachable [OF assms(2)] assms(1) by blast
  moreover have "guess_truth s = secret"
    using assms(2) guess_truth_kept by (induction rule: reachable.induct) (auto simp: guessing_start_def)
  ultimately show ?thesis by (simp add: lost_def)
qed

theorem upper_bound_never_found_witness:
  "\<exists>s. reachable (guessing_start 100 100 0 (zeros 8)) guess_step s \<and> sint (lower_bound s) = 50 \<and>
    sint (shm_guess s) = 75 \<and> \<not> guess_exited s"
proof -
  obtain s where s: "reachable (guessing_start 100 100 0 (zeros 8)) guess_step s"
      "sint (lower_bound s) = 50" "sint (shm_guess s) = 75" using second_guess by blast
  have "secret_too_large 100 100 (zeros 8)"
    by (simp add: secret_too_large_def small_def SHM_RESULT_SIZE_def)
  from upper_bound_never_found [OF this s(1)] s show ?thesis by blast
qed

text \<open>
  C35. If the timer expires again before the verdict has arrived, a verdict on one guess can be applied
  to the next one. A state is reachable in which the upper bound has become smaller than the
  secret; from there the guesser never stops.
\<close>

theorem stale_verdict_loses_secret:
  "\<exists>s. reachable (guessing_start 43 100 0 (zeros 8)) guess_step s \<and>
    sint (upper_bound s) < sint (guess_truth s) \<and>
    (\<forall>es s'. run_events guess_step s es = Some s' \<longrightarrow> \<not> guess_exited s')"
proof -
  have "\<exists>s. reachable (guessing_start 43 100 0 (zeros 8)) guess_step s \<and>
    sint (upper_bound s) < sint (guess_truth s) \<and> lost s"
    by (rule evaluated_run [where es = "[GTimer, GameSignal] @ replicate 5 GameStep @
        [GTimer, GuessSignal, GameSignal] @ replicate 5 GameStep @ [GTimer, GuessSignal]"]) code_simp
  then obtain s where s: "reachable (guessing_start 43 100 0 (zeros 8)) guess_step s"
    "sint (upper_bound s) < sint (guess_truth s)" "lost s" by blast
  have "\<not> guess_exited s'" if "run_events guess_step s es = Some s'" for es s'
    using lost_run [OF s(3) that] by (simp add: lost_def)
  with s(1,2) show ?thesis by blast
qed

theorem stale_verdict_loses_secret_witness:
  "\<exists>s. reachable (guessing_start 43 100 0 (zeros 8)) guess_step s \<and> \<not> guess_exited s \<and>
    sint (upper_bound s) < sint (guess_truth s)"
proof -
  obtain s where s: "reachable (guessing_start 43 100 0 (zeros 8)) guess_step s"
    "sint (upper_bound s) < sint (guess_truth s)"
    "\<forall>es s'. run_events guess_step s es = Some s' \<longrightarrow> \<not> guess_exited s'"
    using stale_verdict_loses_secret by blast
  from s(3) [rule_format, of "[]" s] s(1,2) show ?thesis by (intro exI [of _ s]) simp
qed

text \<open>
  The game reads the shared guess once for each of its two tests. If the guess changes between
  them it announces a number as found that is not the secret, and the guesser stops.
\<close>

lemma wrong_bingo:
  "\<exists>s. reachable (guessing_start 43 100 0 (zeros 8)) guess_step s \<and> guess_exited s \<and>
    shm_guess s = 25 \<and> guess_truth s = 43 \<and> last (game_output s) = guess_line 25 ''bingo''"
  by (rule evaluated_run [where es = "[GTimer, GameSignal] @ replicate 5 GameStep @
      [GTimer, GameSignal, GameStep, GuessSignal, GTimer] @ replicate 4 GameStep @ [GuessSignal]"])
    code_simp

end
