(* ===== verification/Lab7_Setup.thy ===== *)
theory Lab7_Setup
  imports Lab7_Guess Syscalls
begin

text \<open>
  How the two programs of lab7 come to share memory: the set-up of \<open>lab7/game.c\<close> and
  \<open>lab7/guess.c\<close> up to their main loops, and the removal of the segment. The segments of the
  system are kept as the documented interface gives them: \<open>shmget\<close> with a key finds the segment of
  this key or creates a zeroed one, with the key 0 (\<open>IPC_PRIVATE\<close>) it always creates one;
  \<open>IPC_RMID\<close> frees the key at once, while a process that is attached keeps the memory. Whether
  \<open>shmget\<close>, \<open>shmat\<close> and \<open>shmctl\<close> succeed is given.
\<close>

section \<open>Segments\<close>

record segments =
  keys :: "c_int \<Rightarrow> nat option"
  contents :: "nat \<Rightarrow> c_int \<times> char list"
  next_id :: nat

definition new_segment :: "segments \<Rightarrow> segments" where
  "new_segment sys = sys\<lparr>contents := (contents sys)(next_id sys := (0, zeros SHM_RESULT_SIZE)),
    next_id := next_id sys + 1\<rparr>"

definition shmget :: "segments \<Rightarrow> c_int \<Rightarrow> segments \<times> nat" where
  "shmget sys key =
    (if key = 0 then (new_segment sys, next_id sys)
     else case keys sys key of
            Some shmid \<Rightarrow> (sys, shmid)
          | None \<Rightarrow> ((new_segment sys)\<lparr>keys := (keys sys)(key \<mapsto> next_id sys)\<rparr>, next_id sys))"

definition remove_segment :: "segments \<Rightarrow> nat \<Rightarrow> segments" where
  "remove_segment sys shmid = sys\<lparr>keys := (\<lambda>k. if keys sys k = Some shmid then None else keys sys k)\<rparr>"

section \<open>The programs\<close>

text \<open>Creating and attaching the segment, the same text in both.\<close>

definition share_memory :: "segments \<Rightarrow> c_int \<Rightarrow> bool \<Rightarrow> bool \<Rightarrow> segments \<times> nat outcome" where
  "share_memory sys key get_ok attach_ok =
    (if \<not> get_ok then (sys, Exit 1)
     else (let (sys', shmid) = shmget sys key
           in if attach_ok then (sys', Go shmid) else (sys', Exit 1)))"

text \<open>\<open>game <key> <secret>\<close>: the segment and the secret.\<close>

definition game_main :: "segments \<Rightarrow> char list list \<Rightarrow> bool \<Rightarrow> bool \<Rightarrow>
    segments \<times> (nat \<times> c_int) outcome" where
  "game_main sys argv get_ok attach_ok =
    (if length argv \<noteq> 3 then (sys, Exit EXIT_FAILURE)
     else (let key_int = read_argument 0 (argv ! 1); secret = read_argument 0 (argv ! 2)
           in case share_memory sys key_int get_ok attach_ok of
                (sys', Go shmid) \<Rightarrow> (sys', Go (shmid, secret))
              | (sys', Exit n) \<Rightarrow> (sys', Exit n)
              | (sys', Undefined) \<Rightarrow> (sys', Undefined)))"

text \<open>\<open>guess <key> <upper_bound> <pid>\<close>: the segment, the upper bound and the game's process.\<close>

definition guess_main :: "segments \<Rightarrow> char list list \<Rightarrow> bool \<Rightarrow> bool \<Rightarrow>
    segments \<times> (nat \<times> c_int \<times> c_int) outcome" where
  "guess_main sys argv get_ok attach_ok =
    (if length argv \<noteq> 4 then (sys, Exit EXIT_FAILURE)
     else (let key_int = read_argument 0 (argv ! 1); upper = read_argument 0 (argv ! 2);
               game_pid = read_argument 0 (argv ! 3)
           in case share_memory sys key_int get_ok attach_ok of
                (sys', Go shmid) \<Rightarrow> (sys', Go (shmid, upper, game_pid))
              | (sys', Exit n) \<Rightarrow> (sys', Exit n)
              | (sys', Undefined) \<Rightarrow> (sys', Undefined)))"

text \<open>\<open>cleanup\<close> of the game: the segments, and the status it leaves with.\<close>

definition destroy_memory :: "segments \<Rightarrow> nat \<Rightarrow> bool \<Rightarrow> segments \<times> int" where
  "destroy_memory sys shmid ok = (if ok then (remove_segment sys shmid, 0) else (sys, 1))"

section \<open>Segments and keys\<close>

definition segments_ok :: "segments \<Rightarrow> bool" where
  "segments_ok sys \<longleftrightarrow> (\<forall>k shmid. keys sys k = Some shmid \<longrightarrow> shmid < next_id sys)"

lemma segments_okD: "segments_ok sys \<Longrightarrow> keys sys k = Some i \<Longrightarrow> i < next_id sys"
  by (simp add: segments_ok_def)

lemma new_segment_fields [simp]:
  "keys (new_segment sys) = keys sys" "next_id (new_segment sys) = Suc (next_id sys)"
  by (simp_all add: new_segment_def)

lemma segments_ok_shmget: "segments_ok sys \<Longrightarrow> segments_ok (fst (shmget sys key))"
  by (auto simp: segments_ok_def shmget_def less_SucI split: option.split)

lemma segments_ok_remove: "segments_ok sys \<Longrightarrow> segments_ok (remove_segment sys shmid)"
  by (simp add: segments_ok_def remove_segment_def)

lemma shmget_bounds:
  "segments_ok sys \<Longrightarrow> snd (shmget sys key) < next_id (fst (shmget sys key))"
  "next_id sys \<le> next_id (fst (shmget sys key))"
  by (auto simp: segments_ok_def shmget_def split: option.split)

text \<open>A second \<open>shmget\<close> finds the segment of the first exactly when the key is not 0.\<close>

lemma shmget_again:
  assumes "segments_ok sys"
  shows "snd (shmget (fst (shmget sys key)) key) = snd (shmget sys key) \<longleftrightarrow> key \<noteq> 0"
  by (auto simp: shmget_def split: option.split)

text \<open>After the segment has been removed its key gives another one.\<close>

lemma shmget_removed:
  assumes "segments_ok sys" and "shmid < next_id sys"
  shows "snd (shmget (remove_segment sys shmid) key) \<noteq> shmid"
  using assms by (auto simp: shmget_def remove_segment_def segments_ok_def split: option.split)

lemma game_shares:
  "game_main sys [g, key, secret] True True =
    (fst (shmget sys (read_argument 0 key)),
     Go (snd (shmget sys (read_argument 0 key)), read_argument 0 secret))"
  by (simp add: game_main_def share_memory_def split_beta Let_def)

lemma guess_shares:
  "guess_main sys [u, key, upper, pid] True True =
    (fst (shmget sys (read_argument 0 key)),
     Go (snd (shmget sys (read_argument 0 key)), read_argument 0 upper, read_argument 0 pid))"
  by (simp add: guess_main_def share_memory_def split_beta Let_def)

section \<open>Properties\<close>

text \<open>
  C26. A game and a guesser started after it with the same key share their memory exactly when the
  key reads as a number other than 0: the key 0, also the value of every
  text that is not a number, is \<open>IPC_PRIVATE\<close>, and each gets a segment of its own. And the two
  cannot meet again after the game has ended: its \<open>cleanup\<close> frees the key while the guesser keeps
  its segment, so that a game started anew with the same key gets another.
\<close>

theorem same_segment_same_key:
  assumes "segments_ok sys"
    and "game_main sys [g, key, secret] True True = (sys1, Go (i, x))"
    and "guess_main sys1 [u, key, upper, pid] True True = (sys2, Go (j, y, z))"
    and "destroy_memory sys2 i True = (sys3, n)"
    and "game_main sys3 [g, key, secret] True True = (sys4, Go (k, w))"
  shows "(i = j \<longleftrightarrow> read_argument 0 key \<noteq> 0) \<and> n = 0 \<and> k \<noteq> i \<and> (i = j \<longrightarrow> k \<noteq> j)"
proof -
  let ?key = "read_argument 0 key"
  have s1: "sys1 = fst (shmget sys ?key)" and i: "i = snd (shmget sys ?key)"
    using assms(2) unfolding game_shares by simp_all
  have s2: "sys2 = fst (shmget sys1 ?key)" and j: "j = snd (shmget sys1 ?key)"
    using assms(3) unfolding guess_shares by simp_all
  have s3: "sys3 = remove_segment sys2 i" and n: "n = 0"
    using assms(4) by (simp_all add: destroy_memory_def)
  have k: "k = snd (shmget sys3 ?key)" using assms(5) unfolding game_shares by simp
  have ok1: "segments_ok sys1" unfolding s1 by (rule segments_ok_shmget [OF assms(1)])
  have ok2: "segments_ok sys2" unfolding s2 by (rule segments_ok_shmget [OF ok1])
  have "i < next_id sys1" unfolding i s1 by (rule shmget_bounds(1) [OF assms(1)])
  also have "next_id sys1 \<le> next_id sys2" unfolding s2 by (rule shmget_bounds(2))
  finally have "k \<noteq> i" unfolding k s3 by (rule shmget_removed [OF ok2])
  moreover have "i = j \<longleftrightarrow> ?key \<noteq> 0"
    using shmget_again [OF assms(1), of ?key] unfolding i j s1 by (simp only: eq_commute)
  ultimately show ?thesis using n by blast
qed

definition no_segments :: segments where
  "no_segments = \<lparr>keys = Map.empty, contents = (\<lambda>_. (0, zeros SHM_RESULT_SIZE)), next_id = 1\<rparr>"

theorem same_segment_same_key_witness:
  "\<exists>sys1 i x sys2 j y z. game_main no_segments [''game'', ''secretkey'', ''5''] True True = (sys1, Go (i, x)) \<and>
    guess_main sys1 [''guess'', ''secretkey'', ''10'', ''77''] True True = (sys2, Go (j, y, z)) \<and> i \<noteq> j"
proof -
  have ok: "segments_ok no_segments" by (simp add: segments_ok_def no_segments_def)
  have key: "read_argument 0 ''secretkey'' = 0"
    by (simp add: read_argument_def number_eval)
  obtain sys1 i x where 1: "game_main no_segments [''game'', ''secretkey'', ''5''] True True = (sys1, Go (i, x))"
    using game_shares by blast
  obtain sys2 j y z where 2:
      "guess_main sys1 [''guess'', ''secretkey'', ''10'', ''77''] True True = (sys2, Go (j, y, z))"
    using guess_shares by blast
  obtain sys3 n where 3: "destroy_memory sys2 i True = (sys3, n)" by fastforce
  obtain sys4 k w where 4: "game_main sys3 [''game'', ''secretkey'', ''5''] True True = (sys4, Go (k, w))"
    using game_shares by blast
  have "i \<noteq> j" using same_segment_same_key [OF ok 1 2 3 4] key by simp
  with 1 2 show ?thesis by blast
qed

end
