(* ===== verification/Hw1_Chrdev.thy ===== *)
theory Hw1_Chrdev
  imports Prelude
begin

text \<open>
  Loading and unloading of the two drivers of hw1, \<open>hw1/led_driver.c\<close> and \<open>hw1/seg_driver.c\<close>.
  The kernel is not part of the sources: the module functions are modelled by the calls they make,
  in order, as a function of what the kernel answers (\<open>ans\<close>, a parameter). What the driver owns after
  a sequence of calls is counted from the calls alone; a release of something it does not own is
  recorded as a bad release.

  The two calls that return a pointer, \<open>class_create\<close> and \<open>device_create\<close>, report an error as an error
  pointer, while the drivers test for \<open>NULL\<close>: such an error goes unnoticed and the initialisation
  goes on.

  The two drivers differ only in their lists of pins, so one definition serves both.
\<close>

section \<open>Calls into the kernel\<close>

datatype kcall =
    AllocRegion | CdevInit | CdevAdd | ClassCreate | DeviceCreate
  | GpioValid nat | GpioRequest nat | GpioOutput nat int | GpioExport nat
  | GpioUnexport nat | GpioFree nat | DeviceDestroy | ClassDestroy | CdevDel | UnregisterRegion
  | GpioSet int int | Fsleep nat

text \<open>
  The answer to a call: what was asked for, an error (a negative number, \<open>false\<close> of
  \<open>gpio_is_valid\<close>, or an error pointer), or the null pointer, which only a call that returns a
  pointer can give. The test the drivers make of it.
\<close>

datatype answer = Good | Error | Null

definition passes :: "(kcall \<Rightarrow> answer) \<Rightarrow> kcall \<Rightarrow> bool" where
  "passes ans c =
    (case c of
       ClassCreate \<Rightarrow> ans c \<noteq> Null
     | DeviceCreate \<Rightarrow> ans c \<noteq> Null
     | _ \<Rightarrow> ans c = Good)"

lemma passes_simps [simp]:
  "passes ans ClassCreate \<longleftrightarrow> ans ClassCreate \<noteq> Null"
  "passes ans DeviceCreate \<longleftrightarrow> ans DeviceCreate \<noteq> Null"
  "passes ans AllocRegion \<longleftrightarrow> ans AllocRegion = Good"
  "passes ans CdevAdd \<longleftrightarrow> ans CdevAdd = Good"
  "passes ans (GpioValid p) \<longleftrightarrow> ans (GpioValid p) = Good"
  "passes ans (GpioRequest p) \<longleftrightarrow> ans (GpioRequest p) = Good"
  by (simp_all add: passes_def)

definition led_pins :: "nat list" where
  "led_pins = [21, 20, 16, 12, 1, 7, 8, 25]"

definition seg_pins :: "nat list" where
  "seg_pins = [9, 10, 22, 27, 17, 4, 3]"

section \<open>\<open>etx_driver_init\<close>\<close>

text \<open>The labels of the error path, each falling through to the next.\<close>

definition r_unreg :: "kcall list" where "r_unreg = [UnregisterRegion]"

definition r_del :: "kcall list" where "r_del = CdevDel # r_unreg"

definition r_class :: "kcall list" where "r_class = ClassDestroy # r_del"

definition r_device :: "kcall list" where "r_device = DeviceDestroy # r_class"

definition r_gpio :: "nat list \<Rightarrow> kcall list" where
  "r_gpio pins = map GpioFree pins @ r_device"

text \<open>A block of checks, one per pin, up to and including the first that fails.\<close>

fun try_pins :: "(kcall \<Rightarrow> answer) \<Rightarrow> (nat \<Rightarrow> kcall) \<Rightarrow> nat list \<Rightarrow> kcall list \<times> bool" where
  "try_pins ans call [] = ([], True)"
| "try_pins ans call (p # ps) =
    (if passes ans (call p) then (let (cs, ok) = try_pins ans call ps in (call p # cs, ok))
     else ([call p], False))"

definition configure_pins :: "nat list \<Rightarrow> kcall list" where
  "configure_pins pins = map (\<lambda>p. GpioOutput p 0) pins @ map GpioExport pins"

definition driver_init :: "nat list \<Rightarrow> (kcall \<Rightarrow> answer) \<Rightarrow> kcall list \<times> int" where
  "driver_init pins ans =
    (if \<not> passes ans AllocRegion then ([AllocRegion] @ r_unreg, - 1)
     else if \<not> passes ans CdevAdd then ([AllocRegion, CdevInit, CdevAdd] @ r_del, - 1)
     else if \<not> passes ans ClassCreate then ([AllocRegion, CdevInit, CdevAdd, ClassCreate] @ r_class, - 1)
     else if \<not> passes ans DeviceCreate
       then ([AllocRegion, CdevInit, CdevAdd, ClassCreate, DeviceCreate] @ r_device, - 1)
     else
       (let pre = [AllocRegion, CdevInit, CdevAdd, ClassCreate, DeviceCreate];
            (valid, v_ok) = try_pins ans GpioValid pins
        in if \<not> v_ok then (pre @ valid @ r_device, - 1)
           else (let (req, r_ok) = try_pins ans GpioRequest pins
                 in if \<not> r_ok then (pre @ valid @ req @ r_gpio pins, - 1)
                    else (pre @ valid @ req @ configure_pins pins, 0))))"

definition led_driver_init :: "(kcall \<Rightarrow> answer) \<Rightarrow> kcall list \<times> int" where
  "led_driver_init = driver_init led_pins"

definition seg_driver_init :: "(kcall \<Rightarrow> answer) \<Rightarrow> kcall list \<times> int" where
  "seg_driver_init = driver_init seg_pins"

section \<open>\<open>etx_driver_exit\<close>\<close>

definition driver_exit :: "nat list \<Rightarrow> kcall list" where
  "driver_exit pins = concat (map (\<lambda>p. [GpioUnexport p, GpioFree p]) pins) @
    [DeviceDestroy, ClassDestroy, CdevDel, UnregisterRegion]"

definition led_driver_exit :: "kcall list" where "led_driver_exit = driver_exit led_pins"

definition seg_driver_exit :: "kcall list" where "seg_driver_exit = driver_exit seg_pins"

section \<open>What the driver owns\<close>

datatype resource = Region | Cdev | DevClass | Device | Pin nat

fun acquires :: "kcall \<Rightarrow> resource option" where
  "acquires AllocRegion = Some Region"
| "acquires CdevAdd = Some Cdev"
| "acquires ClassCreate = Some DevClass"
| "acquires DeviceCreate = Some Device"
| "acquires (GpioRequest p) = Some (Pin p)"
| "acquires _ = None"

fun releases :: "kcall \<Rightarrow> resource option" where
  "releases UnregisterRegion = Some Region"
| "releases CdevDel = Some Cdev"
| "releases ClassDestroy = Some DevClass"
| "releases DeviceDestroy = Some Device"
| "releases (GpioFree p) = Some (Pin p)"
| "releases _ = None"

text \<open>The resources held, in the order acquired, and those released without being held.\<close>

fun account_call :: "(kcall \<Rightarrow> answer) \<Rightarrow> resource list \<times> resource list \<Rightarrow> kcall \<Rightarrow>
    resource list \<times> resource list" where
  "account_call ans (own, bad) c =
    (case acquires c of
       Some r \<Rightarrow> (if ans c = Good then (own @ [r], bad) else (own, bad))
     | None \<Rightarrow>
         (case releases c of
            Some r \<Rightarrow> (if r \<in> set own then (remove1 r own, bad) else (own, bad @ [r]))
          | None \<Rightarrow> (own, bad)))"

definition account_calls :: "(kcall \<Rightarrow> answer) \<Rightarrow> resource list \<times> resource list \<Rightarrow> kcall list \<Rightarrow>
    resource list \<times> resource list" where
  "account_calls ans = foldl (account_call ans)"

lemma account_calls_simps [simp]:
  "account_calls ans st [] = st"
  "account_calls ans st (c # cs) = account_calls ans (account_call ans st c) cs"
  "account_calls ans st (cs @ cs') = account_calls ans (account_calls ans st cs) cs'"
  by (simp_all add: account_calls_def)

section \<open>Accounting of the blocks\<close>

lemma try_valid_account [simp]:
  "account_calls ans st (fst (try_pins ans GpioValid pins)) = st"
  by (induction pins) (cases st; auto split: prod.splits)+

lemma try_pins_ok: "snd (try_pins ans call pins) \<longleftrightarrow> (\<forall>p \<in> set pins. passes ans (call p))"
  by (induction pins) (auto split: prod.splits)

lemma try_pins_all: "\<forall>p \<in> set pins. passes ans (call p) \<Longrightarrow> fst (try_pins ans call pins) = map call pins"
  by (induction pins) (auto split: prod.splits)

text \<open>The pins that were requested before the first failure.\<close>

definition granted :: "(kcall \<Rightarrow> answer) \<Rightarrow> nat list \<Rightarrow> nat list" where
  "granted ans pins = takeWhile (\<lambda>p. passes ans (GpioRequest p)) pins"

lemma try_request_account:
  "account_calls ans (own, bad) (fst (try_pins ans GpioRequest pins)) =
    (own @ map Pin (granted ans pins), bad)"
  by (induction pins arbitrary: own) (auto simp: granted_def split: prod.splits)

lemma free_pins_account:
  assumes "distinct pins" and "\<forall>p. Pin p \<notin> set own" and "distinct held"
  shows "account_calls ans (own @ map Pin held, bad) (map GpioFree pins) =
    (own @ map Pin (filter (\<lambda>p. p \<notin> set pins) held),
     bad @ map Pin (filter (\<lambda>p. p \<notin> set held) pins))"
  using assms
proof (induction pins arbitrary: held bad)
  case (Cons p ps)
  show ?case
  proof (cases "p \<in> set held")
    case True
    let ?h = "filter (\<lambda>q. p \<noteq> q) held"
    have "remove1 p held = ?h"
      using Cons.prems(3) by (simp add: distinct_remove1_removeAll removeAll_filter_not_eq)
    moreover have "map Pin (remove1 p held) = remove1 (Pin p) (map Pin held)"
      by (induction held) auto
    ultimately have "remove1 (Pin p) (own @ map Pin held) = own @ map Pin ?h"
      using Cons.prems(2) by (simp add: remove1_append)
    then have "account_calls ans (own @ map Pin held, bad) (map GpioFree (p # ps)) =
        account_calls ans (own @ map Pin ?h, bad) (map GpioFree ps)"
      using True by simp
    also have "\<dots> = (own @ map Pin (filter (\<lambda>q. q \<notin> set ps) ?h),
        bad @ map Pin (filter (\<lambda>q. q \<notin> set ?h) ps))"
      using Cons.prems by (intro Cons.IH) simp_all
    also have "filter (\<lambda>q. q \<notin> set ?h) ps = filter (\<lambda>q. q \<notin> set held) ps"
      using Cons.prems(1) by (intro filter_cong) auto
    finally show ?thesis using True by (simp add: eq_commute [of p])
  next
    case False
    then have "Pin p \<notin> set (own @ map Pin held)" using Cons.prems(2) by auto
    then have "account_calls ans (own @ map Pin held, bad) (map GpioFree (p # ps)) =
        account_calls ans (own @ map Pin held, bad @ [Pin p]) (map GpioFree ps)"
      by simp
    also have "\<dots> = (own @ map Pin (filter (\<lambda>q. q \<notin> set ps) held),
        (bad @ [Pin p]) @ map Pin (filter (\<lambda>q. q \<notin> set held) ps))"
      using Cons.prems by (intro Cons.IH) simp_all
    also have "filter (\<lambda>q. q \<notin> set ps) held = filter (\<lambda>q. q \<notin> set (p # ps)) held"
      using False by (intro filter_cong) auto
    finally show ?thesis using False by simp
  qed
qed simp

section \<open>Loading and unloading\<close>

text \<open>The calls that have to succeed.\<close>

definition init_ok :: "nat list \<Rightarrow> (kcall \<Rightarrow> answer) \<Rightarrow> bool" where
  "init_ok pins ans \<longleftrightarrow> (\<forall>c \<in> {AllocRegion, CdevAdd, ClassCreate, DeviceCreate}. passes ans c) \<and>
    (\<forall>p \<in> set pins. passes ans (GpioValid p)) \<and> (\<forall>p \<in> set pins. passes ans (GpioRequest p))"

text \<open>The class and the device, if the kernel made them, and if it did not.\<close>

definition made :: "(kcall \<Rightarrow> answer) \<Rightarrow> resource list" where
  "made ans = (if ans ClassCreate = Good then [DevClass] else []) @
    (if ans DeviceCreate = Good then [Device] else [])"

definition not_made :: "(kcall \<Rightarrow> answer) \<Rightarrow> resource list" where
  "not_made ans = (if ans DeviceCreate = Good then [] else [Device]) @
    (if ans ClassCreate = Good then [] else [DevClass])"

text \<open>What a failing initialisation releases without holding it.\<close>

definition bad_releases :: "nat list \<Rightarrow> (kcall \<Rightarrow> answer) \<Rightarrow> resource list" where
  "bad_releases pins ans =
    (if ans AllocRegion \<noteq> Good then [Region] else if ans CdevAdd \<noteq> Good then [Cdev]
     else if ans ClassCreate = Null then [DevClass]
     else if ans DeviceCreate = Null then not_made ans
     else if \<exists>p \<in> set pins. ans (GpioValid p) \<noteq> Good then not_made ans
     else map Pin (dropWhile (\<lambda>p. ans (GpioRequest p) = Good) pins) @ not_made ans)"

lemma driver_init_result: "snd (driver_init pins ans) = (if init_ok pins ans then 0 else - 1)"
  using try_pins_ok [of ans GpioValid pins] try_pins_ok [of ans GpioRequest pins]
  by (auto simp: driver_init_def init_ok_def Let_def split: prod.splits)

lemma granted_all: "\<forall>p \<in> set pins. passes ans (GpioRequest p) \<Longrightarrow> granted ans pins = pins"
  by (simp add: granted_def takeWhile_eq_all_conv)

lemma not_granted:
  "distinct pins \<Longrightarrow> filter (\<lambda>p. p \<notin> set (granted ans pins)) pins =
    dropWhile (\<lambda>p. passes ans (GpioRequest p)) pins"
proof (induction pins)
  case (Cons p ps)
  show ?case
  proof (cases "passes ans (GpioRequest p)")
    case True
    have "filter (\<lambda>q. q \<notin> set (granted ans (p # ps))) ps = filter (\<lambda>q. q \<notin> set (granted ans ps)) ps"
      using Cons.prems True by (intro filter_cong) (auto simp: granted_def)
    then show ?thesis using Cons True by (simp add: granted_def)
  qed (simp add: granted_def)
qed simp

lemma configure_account [simp]:
  "account_calls ans st (configure_pins pins) = st"
proof -
  have "account_calls ans st (map (\<lambda>p. GpioOutput p 0) ps) = st"
    "account_calls ans st (map GpioExport ps) = st" for ps
    by (induction ps) (cases st; simp)+
  then show ?thesis by (simp add: configure_pins_def)
qed

text \<open>The calls up to the device, and the release of what they made.\<close>

lemma make_account:
  assumes "ans AllocRegion = Good" and "ans CdevAdd = Good"
  shows "account_calls ans ([], []) [AllocRegion, CdevInit, CdevAdd, ClassCreate, DeviceCreate] =
    ([Region, Cdev] @ made ans, [])"
  using assms by (simp add: made_def)

lemma r_device_account:
  "account_calls ans ([Region, Cdev] @ made ans, bad) r_device = ([], bad @ not_made ans)"
  by (simp add: r_device_def r_class_def r_del_def r_unreg_def made_def not_made_def)

lemma Pin_not_made [simp]: "Pin p \<notin> set (made ans)"
  by (simp add: made_def)

lemma pins_account:
  assumes "try_pins ans GpioValid pins = (v, vo)" and "try_pins ans GpioRequest pins = (r, ro)"
  shows "account_calls ans st v = st"
    and "account_calls ans (own, bad) r = (own @ map Pin (granted ans pins), bad)"
    and "vo \<longleftrightarrow> (\<forall>p \<in> set pins. ans (GpioValid p) = Good)"
    and "ro \<longleftrightarrow> (\<forall>p \<in> set pins. ans (GpioRequest p) = Good)"
  using try_valid_account [of ans st pins] try_request_account [of ans own bad pins]
    try_pins_ok [of ans GpioValid pins] try_pins_ok [of ans GpioRequest pins] assms by auto

lemma init_success_account:
  assumes "init_ok pins ans"
  shows "account_calls ans ([], []) (fst (driver_init pins ans)) =
    ([Region, Cdev] @ made ans @ map Pin pins, [])"
proof -
  obtain v vo r ro where vr: "try_pins ans GpioValid pins = (v, vo)"
    "try_pins ans GpioRequest pins = (r, ro)" by fastforce
  note p = pins_account [OF vr]
  have "vo" "ro" "granted ans pins = pins" using assms p(3,4) by (auto simp: init_ok_def granted_def
        takeWhile_eq_all_conv)
  then show ?thesis using assms vr p(1,2) make_account [of ans]
    by (simp add: driver_init_def init_ok_def)
qed

lemma r_gpio_account:
  assumes "distinct pins"
  shows "account_calls ans ([Region, Cdev] @ made ans @ map Pin (granted ans pins), []) (r_gpio pins) =
    ([], map Pin (dropWhile (\<lambda>p. ans (GpioRequest p) = Good) pins) @ not_made ans)"
proof -
  have g: "distinct (granted ans pins)" "set (granted ans pins) \<subseteq> set pins"
    using assms by (auto simp: granted_def dest: set_takeWhileD)
  have "filter (\<lambda>p. p \<notin> set pins) (granted ans pins) = []"
    using g(2) by (auto simp: filter_empty_conv)
  then show ?thesis
    using free_pins_account [OF assms _ g(1), of "[Region, Cdev] @ made ans" ans "[]"]
      not_granted [OF assms, of ans] r_device_account [of ans]
    by (simp add: r_gpio_def)
qed

lemma init_failure_account:
  assumes "\<not> init_ok pins ans" and "distinct pins"
  shows "account_calls ans ([], []) (fst (driver_init pins ans)) = ([], bad_releases pins ans)"
proof (cases "ans AllocRegion = Good \<and> ans CdevAdd = Good \<and> ans ClassCreate \<noteq> Null")
  case True
  obtain v vo r ro where vr: "try_pins ans GpioValid pins = (v, vo)"
    "try_pins ans GpioRequest pins = (r, ro)" by fastforce
  note p = pins_account [OF vr] and m = make_account [of ans] r_device_account [of ans "[]"]
  consider "ans DeviceCreate = Null" | "ans DeviceCreate \<noteq> Null" "\<not> vo"
    | "ans DeviceCreate \<noteq> Null" "vo" "\<not> ro"
    using True assms(1) p(3,4) by (auto simp: init_ok_def)
  then show ?thesis
  proof cases
    case 1
    with True m show ?thesis by (simp add: driver_init_def bad_releases_def)
  next
    case 2
    with True m vr p(1,3) show ?thesis by (auto simp: driver_init_def bad_releases_def)
  next
    case 3
    with True m vr p r_gpio_account [OF assms(2), of ans]
    show ?thesis by (simp add: driver_init_def bad_releases_def)
  qed
qed (auto simp: driver_init_def bad_releases_def r_unreg_def r_del_def r_class_def)

lemma exit_pins_account:
  assumes "distinct pins" and "\<forall>p. Pin p \<notin> set own"
  shows "account_calls ans (own @ map Pin pins, bad)
    (concat (map (\<lambda>p. [GpioUnexport p, GpioFree p]) pins)) = (own, bad)"
  using assms by (induction pins) (auto simp: remove1_append)

lemma exit_account:
  assumes "distinct pins"
  shows "account_calls ans ([Region, Cdev] @ made ans @ map Pin pins, []) (driver_exit pins) =
    ([], not_made ans)"
proof -
  have "[DeviceDestroy, ClassDestroy, CdevDel, UnregisterRegion] = r_device"
    by (simp add: r_device_def r_class_def r_del_def r_unreg_def)
  with exit_pins_account [OF assms, of "[Region, Cdev] @ made ans" ans "[]"] r_device_account [of ans "[]"]
  show ?thesis by (simp add: driver_exit_def)
qed

lemma pins_distinct [simp]: "distinct led_pins" "distinct seg_pins"
  by (simp_all add: led_pins_def seg_pins_def)

end
