(* ===== verification/Hw1_Devices.thy ===== *)
theory Hw1_Devices
  imports CLib Hw1_Chrdev
begin

text \<open>
  The write handlers of the two drivers of hw1: the row of LEDs that counts down the delivery
  (\<open>hw1/led_driver.c\<close>) and the seven-segment display that shows a price digit by digit
  (\<open>hw1/seg_driver.c\<close>). A handler is the list of calls it makes (levels set, pauses) as a function
  of the bytes the user writes; \<open>None\<close> is a copy past the end of a kernel variable. Both drivers
  are instances of the interface the shop program relies on.
\<close>

section \<open>Integers as bytes\<close>

text \<open>The four bytes of an \<open>int\<close> in memory, lowest first, and an \<open>int\<close> from up to four bytes.\<close>

definition int_bytes :: "c_int \<Rightarrow> 8 word list" where
  "int_bytes x = map (\<lambda>i. word_of_int (uint x div 256 ^ i)) [0 ..< 4]"

definition bytes_int :: "8 word list \<Rightarrow> c_int" where
  "bytes_int bs = word_of_int (foldr (\<lambda>b v. uint b + 256 * v) bs 0)"

text \<open>
  \<open>copy_from_user (&x, buf, len)\<close> into an \<open>int\<close> that was 0, of which the last \<open>uncopied\<close> bytes
  could not be read (they stay 0, and the handler goes on with what it has).
\<close>

definition copy_int_from_user :: "8 word list \<Rightarrow> nat \<Rightarrow> c_int option" where
  "copy_int_from_user buf uncopied =
    (if length buf \<le> 4 then Some (bytes_int (take (length buf - uncopied) buf)) else None)"

lemma bytes_int_map: "bytes_int bs = word_of_int (foldr (\<lambda>b v. b + 256 * v) (map uint bs) 0)"
  by (simp add: bytes_int_def foldr_map comp_def)

lemma uint_byte: "uint (word_of_int v :: 8 word) = v mod 256"
  by (simp add: uint_word_of_int)

lemma uint_int_bytes:
  "map uint (int_bytes x) = [uint x mod 256, uint x div 256 mod 256,
    uint x div 65536 mod 256, uint x div 16777216 mod 256]"
proof -
  have "[0 ..< 4] = [0, 1, 2, 3 :: nat]" by (simp add: upt_conv_Cons)
  then show ?thesis by (simp only: int_bytes_def list.map uint_byte) simp
qed

lemma four_bytes:
  fixes v :: int
  assumes "0 \<le> v" and "v < 4294967296"
  shows "v mod 256 + 256 * (v div 256 mod 256 + 256 * (v div 65536 mod 256 +
    256 * (v div 16777216 mod 256))) = v"
proof -
  define a where "a = v div 256"
  define b where "b = v div 65536"
  define c where "c = v div 16777216"
  have ab: "b = a div 256" "c = b div 256"
    using zdiv_zmult2_eq [of 256 v 256] zdiv_zmult2_eq [of 256 v 65536]
    by (simp_all add: a_def b_def c_def)
  have "0 \<le> c" "c < 256" using assms by (simp_all add: c_def)
  then have "c mod 256 = c" by simp
  moreover have "b mod 256 + 256 * c = b" "a mod 256 + 256 * b = a" "v mod 256 + 256 * a = v"
    unfolding ab a_def by (rule mod_mult_div_eq)+
  ultimately show ?thesis by (simp only: a_def [symmetric] b_def [symmetric] c_def [symmetric])
qed

lemma bytes_int_int_bytes: "bytes_int (int_bytes x) = x"
proof -
  have r: "0 \<le> uint x" "uint x < 4294967296" using uint_lt2p [of x] by simp_all
  have "foldr (\<lambda>b v. b + 256 * v) (map uint (int_bytes x)) 0 = uint x"
    by (simp only: uint_int_bytes foldr.simps comp_apply id_apply mult_zero_right add_0_right
        four_bytes [OF r])
  then show ?thesis by (simp only: bytes_int_map word_of_int_uint)
qed

lemma length_int_bytes [simp]: "length (int_bytes x) = 4"
  by (simp add: int_bytes_def)

lemma uint_sint_pos: "0 \<le> sint x \<Longrightarrow> uint (x :: c_int) = sint x"
  by (simp add: uint_sint take_bit_int_eq_self_iff) (use sint_c_int_range [of x] in simp)

lemma bytes_int_first:
  assumes "0 \<le> sint x" and "sint x < 256" shows "bytes_int (take 1 (int_bytes x)) = x"
proof -
  have "uint x mod 256 = uint x" using assms by (simp add: uint_sint_pos)
  then have "map uint (take 1 (int_bytes x)) = [uint x]"
    by (simp only: take_map [symmetric] uint_int_bytes) simp
  then have "foldr (\<lambda>b v. b + 256 * v) (map uint (take 1 (int_bytes x))) 0 = uint x" by simp
  then show ?thesis by (simp only: bytes_int_map word_of_int_uint)
qed

section \<open>The LED driver\<close>

definition EINVAL :: int where "EINVAL = 22"

definition get_gpio_by_index :: "int \<Rightarrow> int" where
  "get_gpio_by_index i =
    (if i = 1 then 21 else if i = 2 then 20 else if i = 3 then 16 else if i = 4 then 12
     else if i = 5 then 1 else if i = 6 then 7 else if i = 7 then 8 else if i = 8 then 25
     else - EINVAL)"

text \<open>The first loop lights the first \<open>num_leds\<close>, the second turns them off, one per second.\<close>

definition light_leds :: "int \<Rightarrow> kcall list" where
  "light_leds num_leds =
    map (\<lambda>i. GpioSet (get_gpio_by_index i) (if i \<le> num_leds then 1 else 0)) [1 .. 8]"

definition count_down :: "int \<Rightarrow> kcall list" where
  "count_down num_leds =
    concat (map (\<lambda>j. if j > num_leds then []
                     else [Fsleep 1000000, GpioSet (get_gpio_by_index j) 0]) (rev [1 .. 8]))"

definition led_write :: "8 word list \<Rightarrow> nat \<Rightarrow> kcall list option" where
  "led_write buf uncopied =
    map_option (\<lambda>n. light_leds (sint n) @ count_down (sint n)) (copy_int_from_user buf uncopied)"

section \<open>The seven-segment driver\<close>

definition num :: "int list list" where
  "num = [[1, 1, 1, 1, 1, 1, 0], [0, 1, 1, 0, 0, 0, 0], [1, 1, 0, 1, 1, 0, 1],
    [1, 1, 1, 1, 0, 0, 1], [0, 1, 1, 0, 0, 1, 1], [1, 0, 1, 1, 0, 1, 1], [1, 0, 1, 1, 1, 1, 1],
    [1, 1, 1, 0, 0, 0, 0], [1, 1, 1, 1, 1, 1, 1], [1, 1, 1, 1, 0, 1, 1]]"

definition set_gpio_segments :: "int list \<Rightarrow> kcall list" where
  "set_gpio_segments segment_mask =
    [GpioSet 17 (segment_mask ! 0), GpioSet 27 (segment_mask ! 1), GpioSet 22 (segment_mask ! 2), GpioSet 10 (segment_mask ! 3),
     GpioSet 9 (segment_mask ! 4), GpioSet 4 (segment_mask ! 5), GpioSet 3 (segment_mask ! 6)]"

text \<open>
  The loop that stores the digits, lowest first, in \<open>digits[10]\<close>; \<open>None\<close>: an eleventh digit.
\<close>

function extract_digits :: "int \<Rightarrow> int list \<Rightarrow> nat \<Rightarrow> (int list \<times> nat) option" where
  "extract_digits price digits cnt =
    (if 0 < price
     then (if cnt < length digits
           then extract_digits (price div 10) (digits[cnt := price mod 10]) (cnt + 1)
           else None)
     else Some (digits, cnt))"
  by pat_completeness auto
termination by (relation "measure (\<lambda>(price, _). nat price)") auto

declare extract_digits.simps [simp del]

definition show_digits :: "int list \<Rightarrow> nat \<Rightarrow> kcall list" where
  "show_digits digits cnt =
    concat (map (\<lambda>i. Fsleep 500000 # set_gpio_segments (num ! nat (digits ! i))) (rev [0 ..< cnt]))"

definition seg_write :: "8 word list \<Rightarrow> nat \<Rightarrow> kcall list option" where
  "seg_write buf uncopied =
    (case copy_int_from_user buf uncopied of
       None \<Rightarrow> None
     | Some price \<Rightarrow>
         map_option (\<lambda>(digits, cnt). show_digits digits cnt)
           (extract_digits (sint price) (replicate 10 0) 0))"

section \<open>What the pins show\<close>

text \<open>The level of every pin after a list of calls, and the levels at each pause.\<close>

fun set_level :: "kcall \<Rightarrow> (int \<Rightarrow> int) \<Rightarrow> (int \<Rightarrow> int)" where
  "set_level (GpioSet p v) lv = lv(p := v)"
| "set_level _ lv = lv"

definition levels :: "(int \<Rightarrow> int) \<Rightarrow> kcall list \<Rightarrow> (int \<Rightarrow> int)" where
  "levels lv cs = foldl (\<lambda>l c. set_level c l) lv cs"

text \<open>Which of the LEDs 1 to 8 are lit.\<close>

definition lit :: "(int \<Rightarrow> int) \<Rightarrow> int list" where
  "lit lv = filter (\<lambda>i. lv (get_gpio_by_index i) = 1) [1 .. 8]"

fun at_pauses :: "(int \<Rightarrow> int) \<Rightarrow> kcall list \<Rightarrow> (int \<Rightarrow> int) list" where
  "at_pauses lv [] = []"
| "at_pauses lv (Fsleep k # cs) = lv # at_pauses lv cs"
| "at_pauses lv (c # cs) = at_pauses (set_level c lv) cs"

definition pause_total :: "kcall list \<Rightarrow> nat" where
  "pause_total cs = sum_list (map (\<lambda>c. case c of Fsleep k \<Rightarrow> k | _ \<Rightarrow> 0) cs)"

fun pauses :: "kcall list \<Rightarrow> nat list" where
  "pauses [] = []"
| "pauses (Fsleep k # cs) = k # pauses cs"
| "pauses (c # cs) = pauses cs"

text \<open>
  What a reader of the display sees: the seven bars, each wired to the pin that \<open>set_gpio_segments\<close>
  names in its comments, and the digit they form. A runs along the top, B and C down the right side,
  D along the bottom, E and F up the left side, G across the middle; the shapes of the digits are
  the usual ones and are not taken from the table \<open>num\<close> of the driver.
\<close>

datatype bar = SegA | SegB | SegC | SegD | SegE | SegF | SegG

fun bar_pin :: "bar \<Rightarrow> int" where
  "bar_pin SegA = 17"
| "bar_pin SegB = 27"
| "bar_pin SegC = 22"
| "bar_pin SegD = 10"
| "bar_pin SegE = 9"
| "bar_pin SegF = 4"
| "bar_pin SegG = 3"

definition bars :: "bar list" where
  "bars = [SegA, SegB, SegC, SegD, SegE, SegF, SegG]"

definition lit_bars :: "(int \<Rightarrow> int) \<Rightarrow> bar list" where
  "lit_bars lv = filter (\<lambda>b. lv (bar_pin b) \<noteq> 0) bars"

definition all_but :: "bar list \<Rightarrow> bar list" where
  "all_but bs = filter (\<lambda>b. b \<notin> set bs) bars"

definition digit_shapes :: "bar list list" where
  "digit_shapes =
    [all_but [SegG], [SegB, SegC], all_but [SegC, SegF], all_but [SegE, SegF], [SegB, SegC, SegF, SegG],
     all_but [SegB, SegE], all_but [SegB], [SegA, SegB, SegC], bars, all_but [SegE]]"

definition read_digit :: "(int \<Rightarrow> int) \<Rightarrow> nat option" where
  "read_digit lv = find (\<lambda>d. digit_shapes ! d = lit_bars lv) [0 ..< 10]"

text \<open>The display after each digit: the levels at the pause before the next one, and at the end.\<close>

definition shown :: "(int \<Rightarrow> int) \<Rightarrow> kcall list \<Rightarrow> nat option list" where
  "shown lv cs = map read_digit (tl (at_pauses lv cs @ [levels lv cs]))"

section \<open>The countdown\<close>

definition lit_count :: "int \<Rightarrow> int" where
  "lit_count n = max 0 (min 8 n)"

lemma one_to_eight: "[1 .. 8] = [1, 2, 3, 4, 5, 6, 7, 8 :: int]"
  by (simp add: upto.simps)

lemma leds_clamp:
  "light_leds n = light_leds (lit_count n)" "count_down n = count_down (lit_count n)"
proof -
  have "i \<le> n \<longleftrightarrow> i \<le> lit_count n" if "i \<in> set [1 .. 8]" for i
    using that by (auto simp: lit_count_def)
  then show "light_leds n = light_leds (lit_count n)" "count_down n = count_down (lit_count n)"
    by (auto simp: light_leds_def count_down_def not_le [symmetric] intro!: arg_cong [where f = concat])
qed

lemma lit_count_cases: "lit_count n \<in> {0, 1, 2, 3, 4, 5, 6, 7, 8}"
proof -
  have "0 \<le> lit_count n" "lit_count n \<le> 8" by (simp_all add: lit_count_def)
  then show ?thesis by (simp only: insert_iff empty_iff) presburger
qed

lemma gpio_simps [simp]:
  "get_gpio_by_index 1 = 21" "get_gpio_by_index 2 = 20" "get_gpio_by_index 3 = 16"
  "get_gpio_by_index 4 = 12" "get_gpio_by_index 5 = 1" "get_gpio_by_index 6 = 7"
  "get_gpio_by_index 7 = 8" "get_gpio_by_index 8 = 25"
  by (simp_all add: get_gpio_by_index_def)

lemma led_pauses:
  "map lit (at_pauses lv (light_leds n @ count_down n)) = map (\<lambda>k. [1 .. k]) (rev [1 .. lit_count n])"
  (is ?pauses)
  and led_final: "lit (levels lv (light_leds n @ count_down n)) = []" (is ?final)
  and led_seconds: "pause_total (light_leds n @ count_down n) = nat (lit_count n) * 1000000" (is ?secs)
proof -
  have "?pauses \<and> ?final \<and> ?secs"
    unfolding leds_clamp [of n] using lit_count_cases [of n]
    by (elim insertE emptyE; simp only:)
      (simp_all add: light_leds_def count_down_def one_to_eight lit_def levels_def pause_total_def
        upto.simps)
  then show ?pauses ?final ?secs by blast+
qed

section \<open>The digits\<close>

function digits_low :: "int \<Rightarrow> int list" where
  "digits_low p = (if 0 < p then p mod 10 # digits_low (p div 10) else [])"
  by pat_completeness auto
termination by (relation "measure nat") auto

declare digits_low.simps [simp del]

lemma digits_low_show: "0 < p \<Longrightarrow> map digit_char (map nat (rev (digits_low p))) = show_nat (nat p)"
proof (induction p rule: digits_low.induct)
  case (1 p)
  have d: "nat (p mod 10) = nat p mod 10" "nat (p div 10) = nat p div 10"
    using 1(2) by (simp_all add: nat_mod_distrib nat_div_distrib)
  show ?case
  proof (cases "p < 10")
    case True
    then have "digits_low (p div 10) = []" "nat p < 10" using 1(2) by (simp_all add: digits_low.simps)
    with True 1(2) d show ?thesis by (simp add: digits_low.simps [of p] show_nat.simps [of "nat p"])
  next
    case False
    then have "0 < p div 10" "\<not> nat p < 10" by simp_all
    with 1 False d show ?thesis by (simp add: digits_low.simps [of p] show_nat.simps [of "nat p"])
  qed
qed

lemma digits_low_range: "d \<in> set (digits_low p) \<Longrightarrow> 0 \<le> d \<and> d < 10"
proof (induction p rule: digits_low.induct)
  case (1 p)
  then show ?case by (subst (asm) (2) digits_low.simps) (auto split: if_splits)
qed

lemma length_digits_low: "p \<le> 2147483647 \<Longrightarrow> length (digits_low p) \<le> 10"
proof (cases "0 < p")
  case True
  assume "p \<le> 2147483647"
  then have "length (show_nat (nat p)) \<le> 10" by (intro length_show_nat) auto
  then show ?thesis using digits_low_show [OF True] by (metis length_map length_rev)
qed (simp add: digits_low.simps)

lemma extract_digits_low:
  "cnt + length (digits_low p) \<le> length ds \<Longrightarrow>
    extract_digits p ds cnt = Some (take cnt ds @ digits_low p @ drop (cnt + length (digits_low p)) ds,
      cnt + length (digits_low p))"
proof (induction p ds cnt rule: extract_digits.induct)
  case (1 p ds cnt)
  show ?case
  proof (cases "0 < p")
    case True
    then have dl: "digits_low p = p mod 10 # digits_low (p div 10)" by (simp add: digits_low.simps [of p])
    with 1(2) have c: "cnt < length ds" by simp
    have "extract_digits p ds cnt = extract_digits (p div 10) (ds[cnt := p mod 10]) (cnt + 1)"
      using True c by (simp add: extract_digits.simps [of p])
    also have "\<dots> = Some (take (cnt + 1) (ds[cnt := p mod 10]) @ digits_low (p div 10) @
        drop (cnt + 1 + length (digits_low (p div 10))) (ds[cnt := p mod 10]),
      cnt + 1 + length (digits_low (p div 10)))"
      using 1(2) dl by (intro 1(1) [OF True c]) simp
    also have "take (cnt + 1) (ds[cnt := p mod 10]) = take cnt ds @ [p mod 10]"
      using c by (simp add: take_Suc_conv_app_nth)
    finally show ?thesis using dl by simp
  qed (simp add: extract_digits.simps [of p] digits_low.simps [of p])
qed

text \<open>The calls that show a list of digits.\<close>

definition digit_calls :: "int list \<Rightarrow> kcall list" where
  "digit_calls ds = concat (map (\<lambda>d. Fsleep 500000 # set_gpio_segments (num ! nat d)) ds)"

lemma show_digits_calls: "show_digits ds cnt = digit_calls (map (\<lambda>i. ds ! i) (rev [0 ..< cnt]))"
  by (simp add: show_digits_def digit_calls_def comp_def)

lemma seg_calls:
  assumes "x \<le> 2147483647"
  shows "\<exists>ds cnt. extract_digits x (replicate 10 0) 0 = Some (ds, cnt) \<and>
    show_digits ds cnt = digit_calls (rev (digits_low x))"
proof -
  let ?n = "length (digits_low x)" and ?ds = "digits_low x @ drop (length (digits_low x)) (replicate 10 0)"
  have "extract_digits x (replicate 10 0) 0 = Some (?ds, ?n)"
    using extract_digits_low [of 0 x "replicate 10 0"] length_digits_low [OF assms] by simp
  moreover have "map (\<lambda>i. ?ds ! i) [0 ..< ?n] = digits_low x"
    by (rule nth_equalityI) (simp_all add: nth_append)
  then have "map (\<lambda>i. ?ds ! i) (rev [0 ..< ?n]) = rev (digits_low x)"
    by (simp only: rev_map [symmetric])
  then have "show_digits ?ds ?n = digit_calls (rev (digits_low x))"
    by (simp only: show_digits_calls)
  ultimately show ?thesis by blast
qed

definition row_bars :: "int list \<Rightarrow> bar list" where
  "row_bars row = map fst (filter (\<lambda>(b, v). v \<noteq> 0) (zip bars row))"

lemma lit_bars_row:
  assumes "length row = 7" shows "lit_bars (levels lv (set_gpio_segments row)) = row_bars row"
proof -
  from assms obtain a b c d e f g where "row = [a, b, c, d, e, f, g]"
    by (auto simp: numeral_eq_Suc length_Suc_conv)
  then show ?thesis
    by (simp add: lit_bars_def row_bars_def bars_def levels_def set_gpio_segments_def)
qed

lemma digit_seen:
  assumes "d < 10" shows "read_digit (levels lv (set_gpio_segments (num ! d))) = Some d"
proof -
  have "\<forall>d \<in> set [0 ..< 10]. length (num ! d) = 7 \<and>
      find (\<lambda>k. digit_shapes ! k = row_bars (num ! d)) [0 ..< 10] = Some d" by code_simp
  with assms show ?thesis by (simp add: read_digit_def lit_bars_row)
qed

lemma at_pauses_segments:
  "at_pauses lv (set_gpio_segments row @ cs) = at_pauses (levels lv (set_gpio_segments row)) cs"
  by (simp add: set_gpio_segments_def levels_def)

lemma levels_append: "levels lv (cs @ cs') = levels (levels lv cs) cs'"
  by (simp add: levels_def)

lemma shown_digits:
  assumes "\<forall>d \<in> set ds. 0 \<le> d \<and> d < 10"
  shows "map read_digit (at_pauses lv (digit_calls ds) @ [levels lv (digit_calls ds)]) =
    read_digit lv # map (\<lambda>d. Some (nat d)) ds"
  using assms
proof (induction ds arbitrary: lv)
  case (Cons d ds)
  let ?row = "num ! nat d"
  have r: "read_digit (levels lv (set_gpio_segments ?row)) = Some (nat d)"
    using digit_seen [of "nat d"] Cons.prems by auto
  have c: "digit_calls (d # ds) = Fsleep 500000 # set_gpio_segments ?row @ digit_calls ds"
    by (simp add: digit_calls_def)
  have "levels lv (digit_calls (d # ds)) = levels (levels lv (set_gpio_segments ?row)) (digit_calls ds)"
    by (simp add: c levels_append [symmetric]) (simp add: levels_def)
  with Cons c r show ?case by (simp add: at_pauses_segments)
qed (simp add: digit_calls_def levels_def)

lemma digit_pauses: "pauses (digit_calls ds) = replicate (length ds) 500000"
proof -
  have "pauses (set_gpio_segments row @ cs) = pauses cs" for row cs
    by (simp add: set_gpio_segments_def)
  then show ?thesis by (induction ds) (simp_all add: digit_calls_def)
qed

section \<open>The interface of the drivers\<close>

text \<open>
  What a program relies on that writes integers to a device: writing the first \<open>width\<close> bytes of
  an \<open>int\<close> that fits makes the driver show that integer, without a fault.
\<close>

locale int_device =
  fixes dev_write :: "8 word list \<Rightarrow> nat \<Rightarrow> kcall list option"
    and width :: nat
    and fits :: "c_int \<Rightarrow> bool"
    and display :: "c_int \<Rightarrow> kcall list"
  assumes dev_write_int: "fits x \<Longrightarrow> dev_write (take width (int_bytes x)) 0 = Some (display x)"
begin

lemma never_faults: "fits x \<Longrightarrow> dev_write (take width (int_bytes x)) 0 \<noteq> None"
  by (simp add: dev_write_int)

lemma write_all:
  "\<forall>x \<in> set xs. fits x \<Longrightarrow>
    those (map (\<lambda>x. dev_write (take width (int_bytes x)) 0) xs) = Some (map display xs)"
  by (induction xs) (simp_all add: dev_write_int)

end

definition led_display :: "c_int \<Rightarrow> kcall list" where
  "led_display x = light_leds (sint x) @ count_down (sint x)"

definition seg_display :: "c_int \<Rightarrow> kcall list" where
  "seg_display x = digit_calls (rev (digits_low (sint x)))"

interpretation led_device: int_device led_write 1 "\<lambda>x. 0 \<le> sint x \<and> sint x < 256" led_display
proof unfold_locales
  fix x :: c_int assume "0 \<le> sint x \<and> sint x < 256"
  then have "bytes_int (take 1 (int_bytes x)) = x" by (intro bytes_int_first) simp_all
  then show "led_write (take 1 (int_bytes x)) 0 = Some (led_display x)"
    by (simp add: led_write_def copy_int_from_user_def led_display_def)
qed

interpretation seg_device: int_device seg_write 4 "\<lambda>x. True" seg_display
proof unfold_locales
  fix x :: c_int
  obtain ds cnt where "extract_digits (sint x) (replicate 10 0) 0 = Some (ds, cnt)"
    "show_digits ds cnt = digit_calls (rev (digits_low (sint x)))"
    using seg_calls sint_c_int_range(2) by blast
  then show "seg_write (take 4 (int_bytes x)) 0 = Some (seg_display x)"
    by (simp add: seg_write_def copy_int_from_user_def bytes_int_int_bytes seg_display_def)
qed

lemma seg_display_shown:
  assumes "0 < sint x"
  shows "shown lv (seg_display x) = map (\<lambda>c. Some (digit_val c)) (show_int (sint x))"
    and "pauses (seg_display x) = replicate (length (show_int (sint x))) 500000"
proof -
  let ?ds = "rev (digits_low (sint x))"
  have r: "\<forall>d \<in> set ?ds. 0 \<le> d \<and> d < 10" using digits_low_range by auto
  have "shown lv (seg_display x) = map (\<lambda>d. Some (nat d)) ?ds"
    using arg_cong [OF shown_digits [OF r, of lv], of tl]
    by (simp only: shown_def seg_display_def map_tl list.sel)
  also have "\<dots> = map (\<lambda>c. Some (digit_val c)) (map digit_char (map nat ?ds))"
    using r by (auto simp: comp_def)
  finally show "shown lv (seg_display x) = map (\<lambda>c. Some (digit_val c)) (show_int (sint x))"
    using assms by (simp only: digits_low_show show_int_def) simp
  have "length ?ds = length (show_int (sint x))"
    using arg_cong [OF digits_low_show [OF assms], of length] assms by (simp add: show_int_def)
  then show "pauses (seg_display x) = replicate (length (show_int (sint x))) 500000"
    by (simp add: seg_display_def digit_pauses)
qed

lemma seg_display_nothing: "sint x \<le> 0 \<Longrightarrow> seg_display x = []"
  by (simp add: seg_display_def digit_calls_def digits_low.simps)

end
