(* ===== verification/Hw1_App.thy ===== *)
theory Hw1_App
  imports CLib Billing Hw1_Devices
begin

text \<open>
  The shop program of hw1, \<open>hw1/hw1.c\<close>: a menu on standard input, a running total, and the two
  devices to which a confirmed order is written. The program never ends; a step is one turn of
  the outer loop (\<open>AMenu\<close>) or of the order loop (\<open>AOrder\<close>). Standard input is the list of
  characters still to be read; \<open>scanf\<close> that matches no number leaves its variable as it was,
  and a variable that was never set is \<open>None\<close> (reading it is \<open>AUndefined\<close>).
\<close>

section \<open>State\<close>

record Restaurant =
  rest_name :: "char list"
  rest_distance :: c_int
  menu_item1 :: "char list"
  price1 :: c_int
  menu_item2 :: "char list"
  price2 :: c_int

definition restaurants :: "Restaurant list" where
  "restaurants =
    [\<lparr>rest_name = ''Dessert shop'', rest_distance = 3, menu_item1 = ''cookie'', price1 = 60,
       menu_item2 = ''cake'', price2 = 80\<rparr>,
     \<lparr>rest_name = ''Beverage shop'', rest_distance = 5, menu_item1 = ''tea'', price1 = 40,
       menu_item2 = ''boba'', price2 = 70\<rparr>,
     \<lparr>rest_name = ''Diner'', rest_distance = 8, menu_item1 = ''fried rice'', price1 = 120,
       menu_item2 = ''egg-drop soup'', price2 = 50\<rparr>]"

datatype app_pc = AMenu | AOrder | AUndefined

datatype dev_file = LedFile | SegFile

record app =
  app_pc :: app_pc
  app_input :: "char list"
  choice :: "c_int option"
  restaurant_choice :: "c_int option"
  item_choice :: "c_int option"
  item_quantity :: "c_int option"
  total_amount :: c_int
  continue_order :: bool
  shopping_cart :: bool
  confirm_order :: bool
  opened :: "dev_file \<Rightarrow> bool"
  app_output :: "char list list"
  app_writes :: "(dev_file \<times> 8 word list) list"

definition app_start :: "(dev_file \<Rightarrow> bool) \<Rightarrow> char list \<Rightarrow> app" where
  "app_start opens stdin = \<lparr>app_pc = AMenu, app_input = stdin, choice = None,
    restaurant_choice = None, item_choice = None, item_quantity = None, total_amount = 0,
    continue_order = True, shopping_cart = False, confirm_order = False, opened = opens,
    app_output =
      (if opens LedFile then [] else [''Can not open the file(led device)'']) @
      (if opens SegFile then [] else [''Can not open the file(seven seg device)'']),
    app_writes = []\<rparr>"

section \<open>Input and output\<close>

definition EOL :: "char list" where "EOL = [CHR 0x0A]"

definition say :: "char list \<Rightarrow> app \<Rightarrow> app" where
  "say txt a = a\<lparr>app_output := app_output a @ [txt]\<rparr>"

text \<open>
  \<open>scanf ("%d", &x)\<close>: the new value of \<open>x\<close> and the input left. Without digits the white space and
  a sign in front are still consumed.
\<close>

definition scanf_d :: "c_int option \<Rightarrow> char list \<Rightarrow> c_int option \<times> char list" where
  "scanf_d x s =
    (case scan_d s of
       Some (v, t) \<Rightarrow> (Some v, t)
     | None \<Rightarrow> (x, (case dropWhile is_space s of
           [] \<Rightarrow> []
         | c # t \<Rightarrow> if c = CHR ''-'' \<or> c = CHR ''+'' then t else c # t)))"

text \<open>\<open>write (fd, p, n)\<close>: a device that could not be opened is not written.\<close>

definition write_dev :: "dev_file \<Rightarrow> 8 word list \<Rightarrow> app \<Rightarrow> app" where
  "write_dev f bs a = (if opened a f then a\<lparr>app_writes := app_writes a @ [(f, bs)]\<rparr> else a)"

section \<open>The order loop\<close>

text \<open>\<open>break\<close> out of the order loop, and the statement after it.\<close>

definition leave_order :: "app \<Rightarrow> app" where
  "leave_order a = a\<lparr>continue_order := True, app_pc := AMenu\<rparr>"

text \<open>The choice of the restaurant; the flag is whether the loop body goes on.\<close>

definition choose_restaurant :: "app \<Rightarrow> app \<times> bool" where
  "choose_restaurant a =
    (let a1 = say (EOL @ ''Order'' @ EOL @ ''Please choose from 1~3:'' @ EOL @ ''1. Dessert shop'' @ EOL @
           ''2. Beverage Shop'' @ EOL @ ''3. Diner'' @ EOL @ ''Enter your choice: '') a;
         (v, rest) = scanf_d (restaurant_choice a1) (app_input a1);
         a2 = a1\<lparr>restaurant_choice := v, app_input := rest\<rparr>
     in case v of
          None \<Rightarrow> (a2\<lparr>app_pc := AUndefined\<rparr>, False)
        | Some r \<Rightarrow>
            (if sint r < 1 \<or> 3 < sint r
             then (leave_order (say (''Invalid choice.'' @ EOL) a2), False)
             else (a2\<lparr>confirm_order := True\<rparr>, True)))"

text \<open>
  The running total. The statements \<open>shopping_cart==1;\<close> that follow the two additions compare and
  change nothing.
\<close>

definition add_item :: "Restaurant \<Rightarrow> c_int \<Rightarrow> c_int \<Rightarrow> c_int \<Rightarrow> c_int" where
  "add_item r tot item q =
    (if item = 1 then tot + price1 r * q else if item = 2 then tot + price2 r * q else tot)"

text \<open>\<open>confirm\<close>: the total to the display, the first byte of the distance to the LEDs.\<close>

definition confirm_total :: "Restaurant \<Rightarrow> app \<Rightarrow> app" where
  "confirm_total r a =
    (if total_amount a \<noteq> 0
     then (let a1 = say (''Total amount: $'' @ show_int (sint (total_amount a)) @ EOL) a;
               a2 = write_dev SegFile (int_bytes (total_amount a)) a1;
               a3 = say (''Starting delivery...'' @ EOL @ ''Please wait for a few minutes...'' @ EOL) a2;
               a4 = write_dev LedFile (take 1 (int_bytes (rest_distance r))) a3;
               a5 = say (''Meal delivered! Please pick up your meal.'' @ EOL) a4
           in a5\<lparr>total_amount := 0, continue_order := False\<rparr>)
     else (say (''You haven't ordered anything, please place an order again.'' @ EOL) a)
       \<lparr>shopping_cart := False, confirm_order := False\<rparr>)"

text \<open>The rest of the body: the choice of an item, its quantity, and what it does.\<close>

definition choose_item :: "Restaurant \<Rightarrow> app \<Rightarrow> app" where
  "choose_item r a =
    (let a1 = say (''Please choose from 1~4:'' @ EOL @
           ''1. '' @ menu_item1 r @ '': $'' @ show_int (sint (price1 r)) @ EOL @
           ''2. '' @ menu_item2 r @ '': $'' @ show_int (sint (price2 r)) @ EOL @
           ''3. confirm'' @ EOL @ ''4. cancel'' @ EOL @ ''Enter your choice: '') a;
         (v, rest) = scanf_d (item_choice a1) (app_input a1);
         a2 = a1\<lparr>item_choice := v, app_input := rest\<rparr>
     in case v of
          None \<Rightarrow> a2\<lparr>app_pc := AUndefined\<rparr>
        | Some i \<Rightarrow>
            (if sint i < 1 \<or> 4 < sint i then leave_order (say (''Invalid choice.'' @ EOL) a2)
             else if i = 4
             then leave_order ((say (''Order canceled.'' @ EOL) a2)\<lparr>total_amount := 0\<rparr>)
             else if i = 3 then confirm_total r a2
             else (let a3 = say ''How many? '' a2;
                       (q, rest2) = scanf_d (item_quantity a3) (app_input a3);
                       a4 = a3\<lparr>item_quantity := q, app_input := rest2\<rparr>
                   in case q of
                        None \<Rightarrow> a4\<lparr>app_pc := AUndefined\<rparr>
                      | Some n \<Rightarrow> a4\<lparr>total_amount := add_item r (total_amount a4) i n\<rparr>)))"

definition order_turn :: "app \<Rightarrow> app" where
  "order_turn a =
    (if \<not> continue_order a then leave_order a
     else (let (a1, go) = (if \<not> shopping_cart a \<and> \<not> confirm_order a then choose_restaurant a
                           else (a, True))
           in if \<not> go then a1
              else case restaurant_choice a1 of
                     None \<Rightarrow> a1\<lparr>app_pc := AUndefined\<rparr>
                   | Some r \<Rightarrow>
                       (if 1 \<le> sint r \<and> sint r \<le> 3
                        then choose_item (restaurants ! nat (sint r - 1)) a1
                        else a1\<lparr>app_pc := AUndefined\<rparr>)))"

section \<open>The main menu\<close>

definition menu_turn :: "app \<Rightarrow> app" where
  "menu_turn a =
    (let a1 = say (EOL @ ''Main Menu'' @ EOL @ ''1. Shop List'' @ EOL @ ''2. Order'' @ EOL @
           ''Enter your choice: '') a;
         (v, rest) = scanf_d (choice a1) (app_input a1);
         a2 = a1\<lparr>choice := v, app_input := rest\<rparr>
     in case v of
          None \<Rightarrow> a2\<lparr>app_pc := AUndefined\<rparr>
        | Some c \<Rightarrow>
            (if c = 1
             then (say (EOL @ ''Shop List'' @ EOL @ ''Dessert shop: 3km'' @ EOL @
                 ''Beverage shop: 5km'' @ EOL @ ''Diner: 8km'' @ EOL @
                 ''press any key to return to the main menu'') a2)\<lparr>app_input := drop 2 rest\<rparr>
             else if c = 2
             then a2\<lparr>shopping_cart := False, confirm_order := False, app_pc := AOrder\<rparr>
             else say (''Invalid choice.'' @ EOL) a2))"

definition app_step :: "app \<Rightarrow> unit \<Rightarrow> app option" where
  "app_step a e = (case app_pc a of
     AMenu \<Rightarrow> Some (menu_turn a) | AOrder \<Rightarrow> Some (order_turn a) | AUndefined \<Rightarrow> None)"

definition app_run :: "nat \<Rightarrow> app \<Rightarrow> app option" where
  "app_run n a = run_events app_step a (replicate n ())"

end
