(* ===== verification/Hw1_Theorems.thy ===== *)
theory Hw1_Theorems
  imports Hw1_App
begin

text \<open>
  The properties of hw1: the error paths of the two drivers, what the devices show for an integer,
  and what the shop program writes to them for a typed order.
\<close>

section \<open>The bill\<close>

definition menu_price :: "Restaurant \<Rightarrow> c_int \<Rightarrow> c_int" where
  "menu_price r i = (if i = 1 then price1 r else if i = 2 then price2 r else 0)"

interpretation hw1_bill: billing 0 "add_item r" "\<lambda>t. t" "menu_price r" for r
  by unfold_locales (simp_all add: add_item_def menu_price_def)

section \<open>Typed numbers\<close>

text \<open>Numbers on lines of their own, before \<open>rest\<close>.\<close>

fun typed :: "c_int list \<Rightarrow> char list \<Rightarrow> char list" where
  "typed [] rest = rest"
| "typed (k # ks) rest = EOL @ show_int (sint k) @ typed ks rest"

lemma typed_stops: "stops_number rest \<Longrightarrow> stops_number (typed ks rest)"
  by (cases ks) (simp_all add: stops_number_def EOL_def is_digit_def)

lemma scanf_typed:
  assumes "stops_number rest"
  shows "scanf_d x (typed (k # ks) rest) = (Some k, typed ks rest)"
  using scan_d_show_int [OF typed_stops [OF assms, of ks], of EOL k]
  by (simp add: scanf_d_def EOL_def)

section \<open>A typed order\<close>

definition valid_choice :: "c_int \<Rightarrow> bool" where
  "valid_choice r \<longleftrightarrow> 1 \<le> sint r \<and> sint r \<le> 3"

definition restaurant_no :: "c_int \<Rightarrow> Restaurant" where
  "restaurant_no r = restaurants ! nat (sint r - 1)"

text \<open>Inside the order loop with a chosen restaurant.\<close>

definition in_order :: "app \<Rightarrow> c_int \<Rightarrow> c_int \<Rightarrow> char list \<Rightarrow> (dev_file \<times> 8 word list) list \<Rightarrow> bool" where
  "in_order a r t inp ws \<longleftrightarrow> app_pc a = AOrder \<and> continue_order a \<and> confirm_order a \<and>
    restaurant_choice a = Some r \<and> total_amount a = t \<and> app_input a = inp \<and> app_writes a = ws \<and>
    (\<forall>f. opened a f)"

lemma say_frame [simp]:
  "app_pc (say x a) = app_pc a" "app_input (say x a) = app_input a" "choice (say x a) = choice a"
  "restaurant_choice (say x a) = restaurant_choice a" "item_choice (say x a) = item_choice a"
  "item_quantity (say x a) = item_quantity a" "total_amount (say x a) = total_amount a"
  "continue_order (say x a) = continue_order a" "shopping_cart (say x a) = shopping_cart a"
  "confirm_order (say x a) = confirm_order a" "opened (say x a) = opened a"
  "app_writes (say x a) = app_writes a"
  by (simp_all add: say_def)

lemma write_dev_frame [simp]:
  "app_pc (write_dev f bs a) = app_pc a" "app_input (write_dev f bs a) = app_input a"
  "choice (write_dev f bs a) = choice a"
  "restaurant_choice (write_dev f bs a) = restaurant_choice a"
  "total_amount (write_dev f bs a) = total_amount a"
  "continue_order (write_dev f bs a) = continue_order a"
  "shopping_cart (write_dev f bs a) = shopping_cart a"
  "confirm_order (write_dev f bs a) = confirm_order a" "opened (write_dev f bs a) = opened a"
  "app_writes (write_dev f bs a) = app_writes a @ (if opened a f then [(f, bs)] else [])"
  by (simp_all add: write_dev_def)

lemma order_turn_in_order:
  "in_order a r t inp ws \<Longrightarrow> valid_choice r \<Longrightarrow> order_turn a = choose_item (restaurant_no r) a"
  by (simp add: in_order_def order_turn_def valid_choice_def restaurant_no_def)

lemma order_turn_fresh:
  assumes "app_pc a = AOrder" and "continue_order a" and "\<not> shopping_cart a" and "\<not> confirm_order a"
    and "app_input a = typed (r # ks) rest" and "stops_number rest" and "valid_choice r"
    and "\<forall>f. opened a f"
  shows "\<exists>a1. order_turn a = order_turn a1 \<and>
    in_order a1 r (total_amount a) (typed ks rest) (app_writes a)"
proof -
  let ?a1 = "fst (choose_restaurant a)"
  have "\<not> (sint r < 1 \<or> 3 < sint r)" using assms(7) by (simp add: valid_choice_def)
  then have c: "choose_restaurant a = (?a1, True)"
    and o: "in_order ?a1 r (total_amount a) (typed ks rest) (app_writes a)"
    using assms(1,2,5,8) scanf_typed [OF assms(6)]
    by (simp_all add: choose_restaurant_def in_order_def del: typed.simps)
  have "order_turn a = choose_item (restaurant_no r) ?a1"
    using o assms(2-4,7) unfolding order_turn_def
    by (subst c) (simp add: in_order_def valid_choice_def restaurant_no_def)
  with order_turn_in_order [OF o assms(7)] o show ?thesis by (intro exI [of _ ?a1]) simp
qed

lemma choose_item_adds:
  assumes "in_order a r t (typed (i # q # ks) rest) ws" and "i = 1 \<or> i = 2" and "stops_number rest"
  shows "in_order (choose_item R a) r (add_item R t i q) (typed ks rest) ws"
  using assms(1,2) scanf_typed [OF assms(3), of _ i "q # ks"] scanf_typed [OF assms(3), of _ q ks]
  by (auto simp: choose_item_def in_order_def Let_def simp del: typed.simps)

lemma choose_item_confirms:
  assumes "in_order a r t (typed (3 # ks) rest) ws" and "t \<noteq> 0" and "stops_number rest"
  shows "app_pc (choose_item R a) = AOrder" and "\<not> continue_order (choose_item R a)"
    and "total_amount (choose_item R a) = 0" and "app_input (choose_item R a) = typed ks rest"
    and "app_writes (choose_item R a) =
      ws @ [(SegFile, int_bytes t), (LedFile, take 1 (int_bytes (rest_distance R)))]"
    and "\<forall>f. opened (choose_item R a) f"
  using assms(1,2) scanf_typed [OF assms(3), of _ 3 ks]
  by (simp_all add: choose_item_def in_order_def confirm_total_def Let_def del: typed.simps)

text \<open>The numbers typed for a list of items and the confirmation.\<close>

definition order_keys :: "(c_int \<times> c_int) list \<Rightarrow> c_int list" where
  "order_keys rs = concat (map (\<lambda>(i, q). [i, q]) rs) @ [3]"

definition delivered :: "app \<Rightarrow> app \<Rightarrow> Restaurant \<Rightarrow> c_int \<Rightarrow> char list \<Rightarrow> bool" where
  "delivered a a' R t rest \<longleftrightarrow> app_pc a' = AMenu \<and> continue_order a' \<and> total_amount a' = 0 \<and>
    app_input a' = rest \<and> app_writes a' =
      app_writes a @ [(SegFile, int_bytes t), (LedFile, take 1 (int_bytes (rest_distance R)))]"

lemma app_run_step: "app_step a () = Some a' \<Longrightarrow> app_run (Suc n) a = app_run n a'"
  by (simp add: app_run_def)

lemma app_run_0 [simp]: "app_run 0 a = Some a"
  by (simp add: app_run_def)

lemma order_run:
  assumes "in_order a r t (typed (order_keys rs) rest) (app_writes a)" and "valid_choice r"
    and "\<forall>(i, q) \<in> set rs. i = 1 \<or> i = 2" and "stops_number rest"
    and "add_all (add_item (restaurant_no r)) t rs \<noteq> 0"
  shows "\<exists>a'. app_run (length rs + 2) a = Some a' \<and>
    delivered a a' (restaurant_no r) (add_all (add_item (restaurant_no r)) t rs) rest"
  using assms
proof (induction rs arbitrary: a t)
  case Nil
  let ?a1 = "choose_item (restaurant_no r) a"
  have o: "in_order a r t (typed [3] rest) (app_writes a)" using Nil(1) by (simp add: order_keys_def)
  have "t \<noteq> 0" using Nil(5) by simp
  note c = choose_item_confirms [OF o this Nil(4)]
  have "app_step a () = Some ?a1"
    using o order_turn_in_order [OF o Nil(2)] by (simp add: app_step_def in_order_def)
  moreover have "app_step ?a1 () = Some (leave_order ?a1)"
    using c(1,2) by (simp add: app_step_def order_turn_def)
  ultimately have "app_run (length [] + 2) a = Some (leave_order ?a1)"
    by (simp add: app_run_def numeral_2_eq_2)
  moreover have "delivered a (leave_order ?a1) (restaurant_no r)
      (add_all (add_item (restaurant_no r)) t []) rest"
    using c by (simp add: delivered_def leave_order_def)
  ultimately show ?case by blast
next
  case (Cons iq rs)
  obtain i q where iq: "iq = (i, q)" by (cases iq)
  let ?R = "restaurant_no r" and ?a1 = "choose_item (restaurant_no r) a"
  have o: "in_order a r t (typed (i # q # order_keys rs) rest) (app_writes a)"
    using Cons.prems(1) by (simp add: order_keys_def iq)
  have "i = 1 \<or> i = 2" using Cons.prems(3) by (simp add: iq)
  from choose_item_adds [OF o this Cons.prems(4)]
  have o1: "in_order ?a1 r (add_item ?R t i q) (typed (order_keys rs) rest) (app_writes a)" .
  then have w: "app_writes ?a1 = app_writes a" by (simp add: in_order_def)
  have "app_step a () = Some ?a1"
    using o order_turn_in_order [OF o Cons.prems(2)] by (simp add: app_step_def in_order_def)
  moreover obtain a' where "app_run (length rs + 2) ?a1 = Some a'"
    "delivered ?a1 a' ?R (add_all (add_item ?R) (add_item ?R t i q) rs) rest"
    using Cons.IH [of ?a1 "add_item ?R t i q"] o1 w Cons.prems(2-5) by (auto simp: iq)
  ultimately show ?case using w by (auto simp: app_run_step iq delivered_def)
qed

lemma session_run:
  assumes "app_pc a = AMenu" and "continue_order a" and "\<forall>f. opened a f"
    and "app_input a = typed (2 # r # order_keys rs) rest" and "stops_number rest"
    and "valid_choice r" and "\<forall>(i, q) \<in> set rs. i = 1 \<or> i = 2"
    and "add_all (add_item (restaurant_no r)) (total_amount a) rs \<noteq> 0"
  shows "\<exists>a'. app_run (length rs + 3) a = Some a' \<and>
    delivered a a' (restaurant_no r) (add_all (add_item (restaurant_no r)) (total_amount a) rs) rest"
proof -
  let ?a1 = "menu_turn a"
  have m: "app_pc ?a1 = AOrder" "continue_order ?a1" "\<not> shopping_cart ?a1" "\<not> confirm_order ?a1"
    "app_input ?a1 = typed (r # order_keys rs) rest" "\<forall>f. opened ?a1 f"
    "total_amount ?a1 = total_amount a" "app_writes ?a1 = app_writes a"
    using assms(1-4) scanf_typed [OF assms(5), of _ 2 "r # order_keys rs"]
    by (simp_all add: menu_turn_def Let_def del: typed.simps)
  obtain a2 where a2: "order_turn ?a1 = order_turn a2"
    "in_order a2 r (total_amount a) (typed (order_keys rs) rest) (app_writes a)"
    using order_turn_fresh [OF m(1-5) assms(5,6) m(6)] m(7,8) by auto
  then have w: "app_writes a2 = app_writes a" "app_pc a2 = AOrder" by (simp_all add: in_order_def)
  obtain a' where a': "app_run (length rs + 2) a2 = Some a'"
    "delivered a2 a' (restaurant_no r) (add_all (add_item (restaurant_no r)) (total_amount a) rs) rest"
    using order_run [of a2 r "total_amount a" rs rest] a2(2) w assms(5-8) by auto
  have "app_step ?a1 () = app_step a2 ()" using a2(1) m(1) w(2) by (simp add: app_step_def)
  then have "app_run (length rs + 2) ?a1 = app_run (length rs + 2) a2"
    by (simp add: app_run_def)
  moreover have "app_step a () = Some ?a1" using assms(1) by (simp add: app_step_def)
  then have "app_run (length rs + 3) a = app_run (length rs + 2) ?a1"
    by (simp add: app_run_def numeral_3_eq_3)
  ultimately show ?thesis using a' w by (auto simp: delivered_def)
qed

section \<open>The restaurant table\<close>

definition app_inv :: "app \<Rightarrow> bool" where
  "app_inv a \<longleftrightarrow> (app_pc a = AMenu \<longrightarrow> continue_order a) \<and> \<not> shopping_cart a \<and>
    (app_pc a = AOrder \<and> confirm_order a \<longrightarrow>
      (\<exists>r. restaurant_choice a = Some r \<and> valid_choice r))"

lemma choose_item_inv:
  assumes "app_inv a" and "app_pc a = AOrder"
  shows "app_inv (choose_item R a)"
  using assms
  by (auto simp: choose_item_def app_inv_def leave_order_def confirm_total_def Let_def
      split: option.splits prod.splits)

lemma app_inv_step: "app_inv a \<Longrightarrow> app_step a e = Some a' \<Longrightarrow> app_inv a'"
proof (cases "app_pc a")
  case AMenu
  assume "app_inv a" "app_step a e = Some a'"
  with AMenu show ?thesis
    by (auto simp: app_step_def menu_turn_def app_inv_def Let_def
        split: option.splits prod.splits if_splits)
next
  case AOrder
  assume inv: "app_inv a" and "app_step a e = Some a'"
  with AOrder have a': "a' = order_turn a" by (simp add: app_step_def)
  obtain a1 go where c: "choose_restaurant a = (a1, go)" by fastforce
  have "app_inv a1 \<and> (go \<longrightarrow> app_pc a1 = AOrder)"
    using c AOrder inv
    by (auto simp: choose_restaurant_def app_inv_def leave_order_def valid_choice_def Let_def not_less
        split: option.splits prod.splits if_splits)
  with inv AOrder show ?thesis
    by (auto simp: a' order_turn_def c choose_item_inv split: option.splits)
      (auto simp: app_inv_def leave_order_def)
qed (simp add: app_step_def)

interpretation hw1_app: inductive_invariant "app_start opens stdin" app_step app_inv
  for opens stdin
  by unfold_locales (simp add: app_inv_def app_start_def, rule app_inv_step)

section \<open>Properties\<close>

text \<open>
  C39. A failing initialisation of either driver gives back everything it had acquired; it also
  releases exactly what \<open>bad_releases\<close> lists without holding it: each label of the error path
  undoes the step that failed, after a failed request the pins that were never granted, and the
  class and the device whenever the kernel answered their creation with an error pointer, which
  the test for \<open>NULL\<close> lets pass.
\<close>

theorem init_failure_releases:
  assumes "snd (led_driver_init ans) = - 1" and "snd (seg_driver_init ans') = - 1"
  shows "account_calls ans ([], []) (fst (led_driver_init ans)) = ([], bad_releases led_pins ans) \<and>
    account_calls ans' ([], []) (fst (seg_driver_init ans')) = ([], bad_releases seg_pins ans')"
  using assms init_failure_account [of led_pins ans] init_failure_account [of seg_pins ans']
  by (simp add: led_driver_init_def seg_driver_init_def driver_init_result split: if_splits)

text \<open>
  The class and device fail with an error pointer and the request of pin 8 fails: the driver goes
  on to the pins, and then destroys a device and a class that do not exist.
\<close>

theorem init_failure_releases_witness:
  "account_calls (\<lambda>c. if c \<in> {ClassCreate, DeviceCreate, GpioRequest 8} then Error else Good) ([], [])
      (fst (led_driver_init (\<lambda>c. if c \<in> {ClassCreate, DeviceCreate, GpioRequest 8} then Error else Good))) =
    ([], [Pin 8, Pin 25, Device, DevClass])"
proof -
  let ?a = "\<lambda>c. if c \<in> {ClassCreate, DeviceCreate, GpioRequest 8} then Error else Good"
    and ?b = "\<lambda>c. if c = CdevAdd then Error else Good"
  have "snd (led_driver_init ?a) = - 1" "snd (seg_driver_init ?b) = - 1"
    by (simp_all add: led_driver_init_def seg_driver_init_def driver_init_result init_ok_def led_pins_def)
  from init_failure_releases [OF this] show ?thesis
    by (simp add: bad_releases_def led_pins_def not_made_def)
qed

text \<open>
  A driver that was loaded owns its number region, character device, all its pins, and its class and
  device if the kernel made them; unloading it releases these, each once, and besides them only the
  class and the device it does not have.
\<close>

lemma load_unload:
  assumes "snd (led_driver_init ans) = 0" and "snd (seg_driver_init ans') = 0"
  shows "account_calls ans ([], []) (fst (led_driver_init ans)) =
      ([Region, Cdev] @ made ans @ map Pin led_pins, []) \<and>
    account_calls ans ([], []) (fst (led_driver_init ans) @ led_driver_exit) = ([], not_made ans) \<and>
    account_calls ans' ([], []) (fst (seg_driver_init ans')) =
      ([Region, Cdev] @ made ans' @ map Pin seg_pins, []) \<and>
    account_calls ans' ([], []) (fst (seg_driver_init ans') @ seg_driver_exit) = ([], not_made ans')"
  using assms init_success_account [of led_pins ans] init_success_account [of seg_pins ans']
    exit_account [of led_pins ans] exit_account [of seg_pins ans']
  by (simp add: led_driver_init_def seg_driver_init_def led_driver_exit_def seg_driver_exit_def
      driver_init_result split: if_splits)

text \<open>
  C38. Writing n to the LED device lights the LEDs 1 to n (at most all eight), turns the highest one
  off every second, and ends after that many seconds with all of them dark.
\<close>

theorem led_countdown:
  assumes "copy_int_from_user buf uncopied = Some n"
  shows "\<exists>cs. led_write buf uncopied = Some cs \<and>
    map lit (at_pauses lv cs) = map (\<lambda>k. [1 .. k]) (rev [1 .. max 0 (min 8 (sint n))]) \<and>
    lit (levels lv cs) = [] \<and> pause_total cs = nat (max 0 (min 8 (sint n))) * 1000000"
  using assms led_pauses [of lv "sint n"] led_final [of lv "sint n"] led_seconds [of "sint n"]
  by (simp add: led_write_def lit_count_def)

theorem led_countdown_witness:
  "\<exists>cs. led_write [3] 0 = Some cs \<and>
    map lit (at_pauses (\<lambda>_. 0) cs) = [[1, 2, 3], [1, 2], [1]] \<and> pause_total cs = 3000000"
proof -
  have "copy_int_from_user [3] 0 = Some 3" by code_simp
  from led_countdown [OF this, of "\<lambda>_. 0"] show ?thesis by (auto simp: upto.simps)
qed

text \<open>
  C37. Writing an \<open>int\<close> to the seven-segment device never overruns \<open>digits[10]\<close>. A positive amount
  is shown as the decimal digits that \<open>%d\<close> would print, the first digit first and one after each
  pause of half a second, where a digit is what its usual seven-segment shape makes a reader see;
  for 0 and for a negative amount no pin is touched, and the display keeps what it showed.
\<close>

theorem seg_shows_amount:
  "\<exists>cs. seg_write (int_bytes x) 0 = Some cs \<and>
    (if 0 < sint x
     then shown lv cs = map (\<lambda>c. Some (digit_val c)) (show_int (sint x)) \<and>
       pauses cs = replicate (length (show_int (sint x))) 500000
     else cs = [])"
  using seg_device.dev_write_int [of x] seg_display_shown(1) [of x lv] seg_display_shown(2) [of x]
    seg_display_nothing [of x]
  by (simp add: int_bytes_def)

text \<open>
  C36. An order typed at the menu (restaurant, items with quantities, confirm) is charged and
  delivered: the display device is written the total of the order, and shows its digits, the LED
  device the distance of the restaurant, and counts it down; the total is zero again. Added to
  the total of the order is what an earlier order left behind.
\<close>

theorem order_delivered:
  assumes "app_pc a = AMenu" and "continue_order a" and "\<forall>f. opened a f"
    and "app_input a = typed (2 # r # order_keys rs) rest" and "stops_number rest"
    and "valid_choice r" and "\<forall>(i, q) \<in> set rs. i = 1 \<or> i = 2"
    and "bill = total_amount a + (\<Sum>(i, q) \<leftarrow> rs. menu_price (restaurant_no r) i * q)" and "bill \<noteq> 0"
  shows "\<exists>a'. app_run (length rs + 3) a = Some a' \<and>
    delivered a a' (restaurant_no r) bill rest \<and>
    seg_write (int_bytes bill) 0 = Some (seg_display bill) \<and>
    led_write (take 1 (int_bytes (rest_distance (restaurant_no r)))) 0 =
      Some (led_display (rest_distance (restaurant_no r)))"
proof -
  have "add_all (add_item (restaurant_no r)) (total_amount a) rs = bill"
    using hw1_bill.bill_add_all assms(8) by simp
  with session_run [OF assms(1-7)] assms(9) obtain a' where a': "app_run (length rs + 3) a = Some a'"
    "delivered a a' (restaurant_no r) bill rest" by auto
  have "r = 1 \<or> r = 2 \<or> r = 3"
  proof -
    have "sint r = 1 \<or> sint r = 2 \<or> sint r = 3" using assms(6) by (simp add: valid_choice_def) arith
    then show ?thesis using c_int_eqI [of r 1] c_int_eqI [of r 2] c_int_eqI [of r 3] by auto
  qed
  then have "0 \<le> sint (rest_distance (restaurant_no r)) \<and> sint (rest_distance (restaurant_no r)) < 256"
    by (auto simp: restaurant_no_def restaurants_def)
  from led_device.dev_write_int [OF this] seg_device.dev_write_int [of bill] a' show ?thesis
    by (intro exI [of _ a']) (simp add: int_bytes_def)
qed

theorem order_delivered_witness:
  "\<exists>a'. app_run 5 (app_start (\<lambda>_. True) (typed [2, 3, 1, 2, 2, 1, 3] [])) = Some a' \<and>
    app_writes a' = [(SegFile, int_bytes 290), (LedFile, take 1 (int_bytes 8))]"
proof -
  let ?a = "app_start (\<lambda>_. True) (typed [2, 3, 1, 2, 2, 1, 3] [])"
  have "restaurant_no 3 = restaurants ! 2" by (simp add: restaurant_no_def)
  then have R: "(\<Sum>(i, q) \<leftarrow> [(1, 2), (2, 1)]. menu_price (restaurant_no 3) i * q) = 290"
    "rest_distance (restaurant_no 3) = 8"
    by (simp_all add: menu_price_def restaurants_def)
  have k: "typed [2, 3, 1, 2, 2, 1, 3] [] = typed (2 # 3 # order_keys [(1, 2), (2, 1)]) []"
    by (simp add: order_keys_def)
  have "\<exists>a'. app_run (length [(1 :: c_int, 2 :: c_int), (2, 1)] + 3) ?a = Some a' \<and>
    delivered ?a a' (restaurant_no 3) 290 [] \<and> seg_write (int_bytes 290) 0 = Some (seg_display 290) \<and>
    led_write (take 1 (int_bytes (rest_distance (restaurant_no 3)))) 0 =
      Some (led_display (rest_distance (restaurant_no 3)))"
    by (rule order_delivered)
      (use R k in \<open>simp_all add: app_start_def stops_number_def valid_choice_def\<close>)
  then obtain a' where "app_run 5 ?a = Some a'" "delivered ?a a' (restaurant_no 3) 290 []" by auto
  with R show ?thesis by (intro exI [of _ a']) (simp add: delivered_def app_start_def)
qed

text \<open>
  An order that is left by an invalid choice keeps its total (only \<open>cancel\<close> resets it): the next
  order, at another restaurant and with nothing chosen there, is charged the old amount.
\<close>

lemma stale_total_charged:
  "\<exists>a. app_run 6 (app_start (\<lambda>_. True) (typed [2, 1, 1, 2, 9, 2, 3, 3] [])) = Some a \<and>
    app_writes a = [(SegFile, int_bytes 120), (LedFile, [8])]"
proof -
  have "(case app_run 6 (app_start (\<lambda>_. True) (typed [2, 1, 1, 2, 9, 2, 3, 3] [])) of
    None \<Rightarrow> False | Some a \<Rightarrow> app_writes a = [(SegFile, int_bytes 120), (LedFile, [8])])"
    by code_simp
  then show ?thesis by (auto split: option.splits)
qed

text \<open>
  The table of restaurants is only read at its three entries: inside the order loop, once a
  restaurant has been accepted, the index is in range. The flag \<open>shopping_cart\<close> is never set.
\<close>

lemma restaurant_in_range:
  assumes "reachable (app_start opens stdin) app_step a" and "app_pc a = AOrder" and "confirm_order a"
  shows "\<exists>r. restaurant_choice a = Some r \<and> 1 \<le> sint r \<and> sint r \<le> 3 \<and> \<not> shopping_cart a"
  using hw1_app.inv_reachable [OF assms(1)] assms(2,3) by (auto simp: app_inv_def valid_choice_def)

text \<open>
  Input that is not a number is never consumed: after a first number other than 1 and 2, a line
  that starts with another character makes the program repeat its menu for ever.
\<close>

lemma garbage_loops_for_ever:
  assumes "app_pc a = AMenu" and "choice a = Some k" and "k \<noteq> 1" and "k \<noteq> 2"
    and "app_input a = c # cs" and "\<not> is_space c" and "\<not> is_digit c" and "c \<noteq> CHR ''-''" and "c \<noteq> CHR ''+''"
  shows "\<exists>a'. app_run n a = Some a' \<and> app_pc a' = AMenu \<and> app_input a' = c # cs \<and>
    app_writes a' = app_writes a"
  using assms
proof (induction n arbitrary: a)
  case (Suc n)
  have "scan_d (c # cs) = None"
    using Suc.prems(6-9) by (simp add: scan_d_def signed_part_def unsigned_part_def)
  then have m: "app_pc (menu_turn a) = AMenu" "choice (menu_turn a) = Some k"
    "app_input (menu_turn a) = c # cs" "app_writes (menu_turn a) = app_writes a"
    using Suc.prems by (simp_all add: menu_turn_def scanf_d_def Let_def)
  have "app_step a () = Some (menu_turn a)" using Suc.prems(1) by (simp add: app_step_def)
  with Suc.IH [of "menu_turn a"] m Suc.prems(3-9) show ?case by (simp add: app_run_step)
qed simp

end
