(* ===== verification/Lab4_Seg.thy ===== *)
theory Lab4_Seg
  imports CLib
begin

text \<open>
  The sixteen-segment display of lab4: the driver \<open>lab4/mydev.c\<close>, the program that writes a name to
  it letter by letter (\<open>lab4/writer.c\<close>) and the program that reads the pattern and sends it to the
  screen (\<open>lab4/reader.c\<close>). The driver's state is its 17-byte buffer \<open>led\<close>. The memory of the
  reader is its 16-byte buffer and the byte that follows it.
\<close>

section \<open>The driver\<close>

definition seg_for_c :: "char list list" where
  "seg_for_c =
    [''1111001100010001'', ''0000011100000101'', ''1100111100000000'', ''0000011001000101'',
     ''1000011100000001'', ''1000001100000001'', ''1001111100010000'', ''0011001100010001'',
     ''1100110001000100'', ''1100010001000100'', ''0000000001101100'', ''0000111100000000'',
     ''0011001110100000'', ''0011001110001000'', ''1111111100000000'', ''1000001101000001'',
     ''0111000001010000'', ''1110001100011001'', ''1101110100010001'', ''1100000001000100'',
     ''0011111100000000'', ''0000001100100010'', ''0011001100001010'', ''0000000010101010'',
     ''0000000010100100'', ''1100110000100010'', ''0000000000000000'']"

definition LED_SIZE :: nat where "LED_SIZE = 17"

definition letter_index :: "char \<Rightarrow> nat" where
  "letter_index c =
    (let n = of_char c :: nat
     in if 65 \<le> n \<and> n \<le> 90 then n - 65 else if 97 \<le> n \<and> n \<le> 122 then n - 97 else 26)"

text \<open>
  \<open>my_write\<close>: the bytes are copied into one \<open>char\<close>; more than one overruns it (\<open>None\<close>), none leaves
  it indeterminate (\<open>None\<close>). The new buffer and the number of bytes accepted.
\<close>

definition my_write :: "char list \<Rightarrow> char list \<Rightarrow> (char list \<times> nat) option" where
  "my_write led buf =
    (case buf of
       [c] \<Rightarrow> map_option (\<lambda>b. (b, length buf)) (strcpy led (seg_for_c ! letter_index c))
     | _ \<Rightarrow> None)"

text \<open>
  \<open>my_read\<close>: all 17 bytes are copied to the address the user gives, whatever length the user asks
  for; the memory from that address on, and the result.
\<close>

definition my_read :: "char list \<Rightarrow> char list \<Rightarrow> nat \<Rightarrow> char list \<times> nat" where
  "my_read led user_memory len = (overlay (take LED_SIZE led) user_memory, LED_SIZE)"

section \<open>The programs\<close>

text \<open>The loop of the writer over the characters of its argument: the buffer after each write.\<close>

fun writer_loop :: "char list \<Rightarrow> char list \<Rightarrow> char list list option" where
  "writer_loop led name =
    (case name of
       [] \<Rightarrow> Some []
     | c # cs \<Rightarrow>
         (if c = NUL then Some []
          else case my_write led [c] of
                 None \<Rightarrow> None
               | Some (led', _) \<Rightarrow> map_option (Cons led') (writer_loop led' cs)))"

declare writer_loop.simps [simp del]

text \<open>
  One turn of the reader: \<open>read\<close> of 16 bytes into \<open>buf\<close>, which is followed in memory by one more
  byte, and the 16 bytes it sends.
\<close>

definition reader_turn :: "char list \<Rightarrow> char list \<Rightarrow> char list \<times> char list" where
  "reader_turn led user_memory =
    (let mem = fst (my_read led user_memory 16) in (mem, take 16 mem))"

section \<open>Patterns\<close>

lemma table_facts:
  "length seg_for_c = 27" "distinct (take 26 seg_for_c)"
  "\<forall>p \<in> set seg_for_c. length p = 16 \<and> set p \<subseteq> {CHR ''0'', CHR ''1''}"
  by code_simp+

lemma letter_index_less: "letter_index c < 27"
  by (auto simp: letter_index_def Let_def)

lemma pattern_facts:
  "length (seg_for_c ! letter_index c) = 16" "NUL \<notin> set (seg_for_c ! letter_index c)"
proof -
  have "seg_for_c ! letter_index c \<in> set seg_for_c"
    using letter_index_less table_facts(1) by simp
  with table_facts(3) show "length (seg_for_c ! letter_index c) = 16"
    "NUL \<notin> set (seg_for_c ! letter_index c)" by (auto simp: NUL_def)
qed

lemma my_write_pattern:
  assumes "length led = LED_SIZE"
  shows "my_write led [c] = Some (seg_for_c ! letter_index c @ [NUL], 1)"
  using assms pattern_facts [of c]
  by (simp add: my_write_def strcpy_def overlay_def cstr_id LED_SIZE_def)

lemma writer_loop_patterns:
  assumes "length led = LED_SIZE" and "NUL \<notin> set name"
  shows "writer_loop led name = Some (map (\<lambda>c. seg_for_c ! letter_index c @ [NUL]) name)"
  using assms
proof (induction name arbitrary: led)
  case (Cons c cs)
  have "length (seg_for_c ! letter_index c @ [NUL]) = LED_SIZE"
    using pattern_facts [of c] by (simp add: LED_SIZE_def)
  moreover have "c \<noteq> NUL" "NUL \<notin> set cs" using Cons.prems(2) by auto
  ultimately show ?case
    using Cons.IH Cons.prems(1) by (subst writer_loop.simps) (simp add: my_write_pattern)
qed (simp add: writer_loop.simps)

section \<open>Properties\<close>

text \<open>
  Every read of the display overruns the reader: the driver copies 17 bytes although 16 were
  asked for, so that after a letter has been written the byte after the reader's buffer is
  overwritten with the NUL that ends the pattern.
\<close>

lemma reader_overrun:
  assumes "length led = LED_SIZE" and "my_write led [c] = Some (led', n)" and "length mem = 17"
  shows "snd (my_read led' mem 16) = 17 \<and> fst (reader_turn led' mem) ! 16 = NUL"
  using assms(2,3) my_write_pattern [OF assms(1), of c] pattern_facts(1) [of c]
  by (auto simp: my_read_def reader_turn_def LED_SIZE_def overlay_def nth_append)

end
