(* ===== verification/Char_Devices.thy ===== *)
theory Char_Devices
  imports Lab4_Seg Syscalls
begin

text \<open>
  The rest of the character devices: registration and the open and read handlers of the drivers
  \<open>lab4/mydev.c\<close>, \<open>hw1/led_driver.c\<close> and \<open>hw1/seg_driver.c\<close>, and the whole programs that use them,
  \<open>lab4/writer.c\<close>, \<open>lab4/reader.c\<close> (after its set-up, which is in \<open>Sockets\<close>) and
  \<open>lab3/lab3-1_writer.c\<close>, whose driver is present only as a binary.
\<close>

section \<open>Registration of the display of lab4\<close>

definition EBUSY :: int where "EBUSY = 16"

definition MAJOR_NUM :: nat where "MAJOR_NUM = 255"

type_synonym majors = "nat \<Rightarrow> char list option"

text \<open>\<open>register_chrdev\<close> with a fixed major number: 0, or a negative error when the number is taken.\<close>

definition register_chrdev :: "majors \<Rightarrow> nat \<Rightarrow> char list \<Rightarrow> majors \<times> int" where
  "register_chrdev table major name =
    (if table major = None then (table(major \<mapsto> name), 0) else (table, - EBUSY))"

definition my_init :: "majors \<Rightarrow> majors \<times> int" where
  "my_init table =
    (let (table', r) = register_chrdev table MAJOR_NUM ''mydev''
     in if r < 0 then (table', - EBUSY) else (table', 0))"

definition my_exit :: "majors \<Rightarrow> majors" where
  "my_exit table = table(MAJOR_NUM := None)"

section \<open>Operations of the drivers\<close>

text \<open>
  The result of \<open>open\<close> and \<open>release\<close>, and \<open>read\<close>: the user's memory from the given address on and the
  result. The LED driver stores the level of pin 21, the segment driver a constant; both replace
  the length asked for by 1 and return 0.
\<close>

definition my_open :: int where "my_open = 0"

definition led_open :: int where "led_open = 0"

definition led_release :: int where "led_release = 0"

definition seg_open :: int where "seg_open = 0"

definition seg_release :: int where "seg_release = 0"

definition led_read :: "nat \<Rightarrow> char list \<Rightarrow> nat \<Rightarrow> char list \<times> int" where
  "led_read gpio_21 user_memory len = (overlay [char_of gpio_21] user_memory, 0)"

definition seg_read :: "char list \<Rightarrow> nat \<Rightarrow> char list \<times> int" where
  "seg_read user_memory len = (overlay [NUL] user_memory, 0)"

text \<open>The operations a driver puts into its \<open>file_operations\<close>, in the order of the table.\<close>

datatype operation = OpRead | OpWrite | OpOpen | OpRelease

definition fops :: "operation list" where "fops = [OpRead, OpWrite, OpOpen, OpRelease]"

definition my_fops :: "operation list" where "my_fops = [OpRead, OpWrite, OpOpen]"

section \<open>The programs\<close>

text \<open>
  \<open>lab4/writer.c\<close>: the contents of the display after each write. The result of \<open>open\<close> is only
  reported; without the device nothing is written. A missing argument is undefined behaviour.
\<close>

definition lab4_writer_main :: "bool \<Rightarrow> char list \<Rightarrow> char list list \<Rightarrow>
    (char list \<times> char list list) option" where
  "lab4_writer_main opened led argv =
    (case arg argv 1 of
       None \<Rightarrow> None
     | Some name \<Rightarrow>
         if opened then map_option (Pair []) (writer_loop led name)
         else Some (''Can not open the file'', []))"

text \<open>
  \<open>lab3/lab3-1_writer.c\<close>: ten bytes from the start of the argument are written, however long it is;
  \<open>behind\<close> is the memory after the argument and its NUL. The bytes the device gets and the text
  printed; a null argument is refused by the kernel.
\<close>

definition lab3_writer_main :: "bool \<Rightarrow> char list \<Rightarrow> char list list \<Rightarrow> char list \<times> char list" where
  "lab3_writer_main opened behind argv =
    (if opened
     then (case arg argv 1 of None \<Rightarrow> [] | Some number \<Rightarrow> take 10 (number @ NUL # behind), [])
     else ([], ''Can not open the file''))"

text \<open>
  \<open>lab4/reader.c\<close>, its loop: whether its descriptors are open, its memory, what it printed and sent,
  and the status it left with.
\<close>

record reader =
  r_open :: bool
  r_memory :: "char list"
  r_screen :: "char list"
  r_sent :: "char list list"
  r_status :: "int option"

definition sigint_handler :: "reader \<Rightarrow> reader" where
  "sigint_handler r = r\<lparr>r_open := False\<rparr>"

definition print_pattern :: "char list \<Rightarrow> char list" where
  "print_pattern buf = concat (map (\<lambda>c. [c, CHR '' '']) (take 16 buf)) @ [LF]"

definition reader_step :: "char list \<Rightarrow> bool \<Rightarrow> reader \<Rightarrow> reader" where
  "reader_step led write_ok r =
    (if r_status r \<noteq> None then r
     else if \<not> r_open r then r\<lparr>r_status := Some EXIT_FAILURE\<rparr>
     else (let (mem, bytes) = reader_turn led (r_memory r);
               r' = r\<lparr>r_memory := mem, r_screen := r_screen r @ print_pattern mem\<rparr>
           in if write_ok then r'\<lparr>r_sent := r_sent r @ [bytes]\<rparr>
              else r'\<lparr>r_status := Some EXIT_FAILURE\<rparr>))"

section \<open>Facts\<close>

text \<open>Loading the display succeeds exactly when its number is free, and unloading frees it.\<close>

lemma my_init_exit:
  "snd (my_init table) = (if table MAJOR_NUM = None then 0 else - EBUSY)"
  "table MAJOR_NUM = None \<Longrightarrow> my_exit (fst (my_init table)) = table"
  "table MAJOR_NUM \<noteq> None \<Longrightarrow> fst (my_init table) = table"
  by (auto simp: my_init_def register_chrdev_def EBUSY_def my_exit_def)

text \<open>
  The devices of hw1 cannot be read: every \<open>read\<close> reports the end of the file, and stores a byte
  even when none was asked for.
\<close>

lemma hw1_read_is_end:
  "snd (led_read v mem n) = 0" "snd (seg_read mem n) = 0"
  "mem \<noteq> [] \<Longrightarrow> fst (led_read v mem 0) ! 0 = char_of v"
  "mem \<noteq> [] \<Longrightarrow> fst (seg_read mem 0) ! 0 = NUL"
  by (simp_all add: led_read_def seg_read_def overlay_def)

text \<open>An argument shorter than nine characters is followed by memory that is not its own.\<close>

lemma lab3_writes_more:
  assumes "length number < 9" and "length behind = 10"
  shows "fst (lab3_writer_main True behind [prog, number]) =
    number @ NUL # take (9 - length number) behind"
  using assms by (simp add: lab3_writer_main_def arg_def take_Cons')

text \<open>After the interrupt the reader leaves in its next turn, with a failure.\<close>

lemma interrupted_reader:
  "r_status r = None \<Longrightarrow> r_status (reader_step led ok (sigint_handler r)) = Some EXIT_FAILURE"
  by (simp add: reader_step_def sigint_handler_def)

end
