(* ===== verification/Lab4_Display.thy ===== *)
theory Lab4_Display
  imports Char_Devices
begin

text \<open>
  A name on the display of lab4: the writer \<open>lab4/writer.c\<close> and the reader \<open>lab4/reader.c\<close> run side
  by side on the driver \<open>lab4/mydev.c\<close>, in any interleaving of their turns, and the screen
  \<open>lab4/seg.py\<close> colours one line for each character it receives.

  What the screen should show is stated apart from the driver's table: each letter is given by the
  strokes it is drawn with, named as in \<open>seg.py\<close>.
\<close>

section \<open>The screen\<close>

datatype segment =
    TopLeft | TopRight | UpperRight | LowerRight | BottomRight | BottomLeft | LowerLeft | UpperLeft
  | UpperLeftSlash | UpperMiddle | UpperRightSlash | MiddleRight | LowerRightSlash | LowerMiddle
  | LowerLeftSlash | MiddleLeft

text \<open>The lines of the screen in the order of \<open>offsets\<close>, and those that are red.\<close>

definition offsets :: "segment list" where
  "offsets =
    [TopLeft, TopRight, UpperRight, LowerRight, BottomRight, BottomLeft, LowerLeft, UpperLeft,
     UpperLeftSlash, UpperMiddle, UpperRightSlash, MiddleRight, LowerRightSlash, LowerMiddle,
     LowerLeftSlash, MiddleLeft]"

definition red_lines :: "char list \<Rightarrow> segment list" where
  "red_lines data = map fst (filter (\<lambda>(iid, on). on = CHR ''1'') (zip offsets data))"

section \<open>The letters\<close>

text \<open>
  Strokes made of two lines. E, F and P fill the left half of the display, Q the right half, and b
  and d are drawn as small letters.
\<close>

abbreviation (input) "top_bar \<equiv> [TopLeft, TopRight]"
abbreviation (input) "bottom_bar \<equiv> [BottomLeft, BottomRight]"
abbreviation (input) "middle_bar \<equiv> [MiddleLeft, MiddleRight]"
abbreviation (input) "left_side \<equiv> [UpperLeft, LowerLeft]"
abbreviation (input) "right_side \<equiv> [UpperRight, LowerRight]"
abbreviation (input) "centre \<equiv> [UpperMiddle, LowerMiddle]"
abbreviation (input) "rising \<equiv> [LowerLeftSlash, UpperRightSlash]"
abbreviation (input) "falling \<equiv> [UpperLeftSlash, LowerRightSlash]"

definition letter_shapes :: "(char \<times> segment list) list" where
  "letter_shapes =
    [(CHR ''A'', top_bar @ left_side @ right_side @ middle_bar),
     (CHR ''B'', left_side @ [BottomLeft, MiddleLeft, LowerMiddle]),
     (CHR ''C'', top_bar @ left_side @ bottom_bar),
     (CHR ''D'', centre @ [BottomLeft, LowerLeft, MiddleLeft]),
     (CHR ''E'', TopLeft # left_side @ [MiddleLeft, BottomLeft]),
     (CHR ''F'', TopLeft # left_side @ [MiddleLeft]),
     (CHR ''G'', TopLeft # left_side @ bottom_bar @ [LowerRight, MiddleRight]),
     (CHR ''H'', left_side @ right_side @ middle_bar),
     (CHR ''I'', top_bar @ centre @ bottom_bar),
     (CHR ''J'', top_bar @ centre @ [BottomLeft]),
     (CHR ''K'', centre @ [UpperRightSlash, LowerRightSlash]),
     (CHR ''L'', left_side @ bottom_bar),
     (CHR ''M'', left_side @ right_side @ [UpperLeftSlash, UpperRightSlash]),
     (CHR ''N'', left_side @ right_side @ falling),
     (CHR ''O'', top_bar @ left_side @ right_side @ bottom_bar),
     (CHR ''P'', TopLeft # left_side @ [UpperMiddle, MiddleLeft]),
     (CHR ''Q'', TopRight # right_side @ [UpperMiddle, MiddleRight]),
     (CHR ''R'', top_bar @ left_side @ [UpperRight, LowerRightSlash] @ middle_bar),
     (CHR ''S'', top_bar @ [UpperLeft] @ middle_bar @ [LowerRight] @ bottom_bar),
     (CHR ''T'', top_bar @ centre),
     (CHR ''U'', left_side @ right_side @ bottom_bar),
     (CHR ''V'', left_side @ rising),
     (CHR ''W'', left_side @ right_side @ [LowerLeftSlash, LowerRightSlash]),
     (CHR ''X'', rising @ falling),
     (CHR ''Y'', [UpperLeftSlash, UpperRightSlash, LowerMiddle]),
     (CHR ''Z'', top_bar @ rising @ bottom_bar)]"

definition capital :: "char \<Rightarrow> char" where
  "capital c =
    (case map_of (zip ''abcdefghijklmnopqrstuvwxyz'' ''ABCDEFGHIJKLMNOPQRSTUVWXYZ'') c of
       Some d \<Rightarrow> d | None \<Rightarrow> c)"

text \<open>The lines a character is drawn with; none for what is not a letter.\<close>

definition drawing :: "char \<Rightarrow> segment list" where
  "drawing c = (case map_of letter_shapes (capital c) of Some ls \<Rightarrow> ls | None \<Rightarrow> [])"

text \<open>The red lines of what the screen receives are those of the character.\<close>

definition pictures :: "char list \<Rightarrow> char \<Rightarrow> bool" where
  "pictures data c \<longleftrightarrow> length data = 16 \<and> set data \<subseteq> {CHR ''0'', CHR ''1''} \<and>
    set (red_lines data) = set (drawing c)"

section \<open>The letters in the driver\<close>

definition letters :: "char list" where
  "letters = ''ABCDEFGHIJKLMNOPQRSTUVWXYZ'' @ ''abcdefghijklmnopqrstuvwxyz''"

lemma letter_pictures: "c \<in> set letters \<Longrightarrow> pictures (seg_for_c ! letter_index c) c"
proof -
  have "\<forall>c \<in> set letters. pictures (seg_for_c ! letter_index c) c" by code_simp
  then show "c \<in> set letters \<Longrightarrow> ?thesis" by blast
qed

lemma letter_codes: "map of_char letters = [65 ..< 91] @ [97 ..< 123 :: nat]"
  by code_simp

lemma letter_index_blank:
  assumes "letter_index c \<noteq> 26"
  shows "c \<in> set letters"
proof -
  define n where "n = (of_char c :: nat)"
  have "n \<in> set (map of_char letters)"
    using assms unfolding letter_codes set_append set_upt Un_iff atLeastLessThan_iff
    by (auto simp: letter_index_def Let_def n_def [symmetric] split: if_splits)
  then show ?thesis by (auto simp: n_def)
qed

lemma drawing_blank:
  assumes "c \<notin> set letters"
  shows "drawing c = []"
proof -
  have "map_of (zip ''abcdefghijklmnopqrstuvwxyz'' ''ABCDEFGHIJKLMNOPQRSTUVWXYZ'') c = None"
    using assms by (simp add: letters_def)
  moreover have "map_of letter_shapes c = None"
    using assms by (simp add: letters_def letter_shapes_def)
  ultimately show ?thesis by (simp add: drawing_def capital_def)
qed

lemma pattern_pictures: "pictures (seg_for_c ! letter_index c) c"
proof (cases "c \<in> set letters")
  case False
  then have "letter_index c = 26" using letter_index_blank by blast
  moreover have "pictures (seg_for_c ! 26) c \<longleftrightarrow> drawing c = []"
    by (simp add: pictures_def seg_for_c_def red_lines_def offsets_def)
  ultimately show ?thesis using drawing_blank [OF False] by simp
qed (rule letter_pictures)

section \<open>Writer and reader side by side\<close>

text \<open>
  One turn of the writer's loop: the next character of the name is written, if there is one. The
  reader's turn is \<open>reader_step\<close>, with a connection that takes the bytes. Between two turns a
  program sleeps for a second, so either may take any number of turns before the other.
\<close>

definition writer_turn :: "char list \<Rightarrow> char list \<Rightarrow> (char list \<times> char list) option" where
  "writer_turn led name =
    (case name of
       [] \<Rightarrow> Some (led, name)
     | c # cs \<Rightarrow>
         (if c = NUL then Some (led, name)
          else map_option (\<lambda>(led', _). (led', cs)) (my_write led [c])))"

lemma writer_loop_turns:
  "writer_loop led (c # cs) =
    (if c = NUL then Some []
     else case writer_turn led (c # cs) of
            None \<Rightarrow> None | Some (led', cs') \<Rightarrow> map_option (Cons led') (writer_loop led' cs'))"
  by (subst writer_loop.simps) (auto simp: writer_turn_def split: option.splits)

record display =
  d_led :: "char list"
  d_name :: "char list"
  d_reader :: reader

datatype display_turn = WriterTurn | ReaderTurn

fun display_step :: "display \<Rightarrow> display_turn \<Rightarrow> display option" where
  "display_step d WriterTurn =
    map_option (\<lambda>(led, name). d\<lparr>d_led := led, d_name := name\<rparr>) (writer_turn (d_led d) (d_name d))"
| "display_step d ReaderTurn = Some (d\<lparr>d_reader := reader_step (d_led d) True (d_reader d)\<rparr>)"

text \<open>The driver just loaded, the reader's buffer empty; \<open>b\<close> is the byte behind that buffer.\<close>

definition display_start :: "char list \<Rightarrow> char \<Rightarrow> display" where
  "display_start name b =
    \<lparr>d_led = zeros LED_SIZE, d_name = name,
     d_reader = \<lparr>r_open = True, r_memory = zeros 16 @ [b], r_screen = [], r_sent = [], r_status = None\<rparr>\<rparr>"

text \<open>How often the writer has had its turn before each turn of the reader.\<close>

fun written_before :: "nat \<Rightarrow> display_turn list \<Rightarrow> nat list" where
  "written_before k [] = []"
| "written_before k (WriterTurn # es) = written_before (Suc k) es"
| "written_before k (ReaderTurn # es) = k # written_before k es"

definition led_after :: "char list \<Rightarrow> nat \<Rightarrow> char list" where
  "led_after name k =
    (if min k (length name) = 0 then zeros LED_SIZE
     else seg_for_c ! letter_index (name ! (min k (length name) - 1)) @ [NUL])"

lemma length_led_after [simp]: "length (led_after name k) = LED_SIZE"
  by (simp add: led_after_def pattern_facts LED_SIZE_def)

lemma writer_turn_led_after:
  assumes "NUL \<notin> set name"
  shows "writer_turn (led_after name k) (drop k name) = Some (led_after name (Suc k), drop (Suc k) name)"
proof (cases "k < length name")
  case True
  then have "drop k name = name ! k # drop (Suc k) name" by (simp add: Cons_nth_drop_Suc)
  moreover have "name ! k \<noteq> NUL" using True assms by (metis nth_mem)
  moreover have "my_write (led_after name k) [name ! k] = Some (led_after name (Suc k), 1)"
    using True my_write_pattern [OF length_led_after, of name k "name ! k"]
    by (simp add: led_after_def min_def)
  ultimately show ?thesis by (simp add: writer_turn_def)
next
  case False
  then show ?thesis by (simp add: writer_turn_def led_after_def)
qed

lemma display_run:
  assumes "NUL \<notin> set name" and "d_led d = led_after name k" and "d_name d = drop k name"
    and "r_open (d_reader d)" and "r_status (d_reader d) = None"
  shows "\<exists>d'. run_events display_step d es = Some d' \<and>
    r_sent (d_reader d') =
      r_sent (d_reader d) @ map (\<lambda>j. take 16 (led_after name j)) (written_before k es)"
  using assms(2-)
proof (induction es arbitrary: d k)
  case (Cons e es)
  show ?case
  proof (cases e)
    case WriterTurn
    then show ?thesis
      using Cons.prems writer_turn_led_after [OF assms(1), of k]
        Cons.IH [of "d\<lparr>d_led := led_after name (Suc k), d_name := drop (Suc k) name\<rparr>" "Suc k"]
      by simp
  next
    case ReaderTurn
    let ?d = "d\<lparr>d_reader := reader_step (d_led d) True (d_reader d)\<rparr>"
    have "snd (reader_turn (led_after name k) m) = take 16 (led_after name k)" for m
      by (simp add: reader_turn_def my_read_def overlay_def LED_SIZE_def Let_def)
    then have "r_open (d_reader ?d)" "r_status (d_reader ?d) = None"
      "r_sent (d_reader ?d) = r_sent (d_reader d) @ [take 16 (led_after name k)]"
      using Cons.prems by (auto simp: reader_step_def Let_def split: prod.splits) (metis snd_conv)+
    then show ?thesis using Cons.IH [of ?d k] Cons.prems(1,2) ReaderTurn by simp
  qed
qed simp

section \<open>Properties\<close>

text \<open>
  C40. A name written to the display appears on the screen letter by letter, however the turns of
  the writer and of the reader are interleaved. Each turn of the reader sends sixteen characters:
  NULs as long as nothing has been written, and afterwards the characters 0 and 1 that colour
  exactly the lines of the letter written last, upper or lower case alike, and none of the lines
  for a character that is not a letter; the last one stays when the name is finished. The shapes of
  the letters are given by their strokes, not by the table of the driver.
\<close>

theorem name_displayed:
  assumes "NUL \<notin> set name"
  shows "\<exists>d. run_events display_step (display_start name b) es = Some d \<and>
    length (r_sent (d_reader d)) = length (written_before 0 es) \<and>
    (\<forall>i < length (written_before 0 es).
      (let k = min (written_before 0 es ! i) (length name); data = r_sent (d_reader d) ! i
       in if k = 0 then data = zeros 16 else pictures data (name ! (k - 1))))"
proof -
  let ?d = "display_start name b"
  have "d_led ?d = led_after name 0" "d_name ?d = drop 0 name" "r_open (d_reader ?d)"
    "r_status (d_reader ?d) = None" "r_sent (d_reader ?d) = []"
    by (simp_all add: display_start_def led_after_def)
  from display_run [OF assms this(1-4), of es] this(5)
  obtain d where "run_events display_step ?d es = Some d"
    and "r_sent (d_reader d) = map (\<lambda>j. take 16 (led_after name j)) (written_before 0 es)"
    by auto
  moreover have "if min j (length name) = 0 then take 16 (led_after name j) = zeros 16
    else pictures (take 16 (led_after name j)) (name ! (min j (length name) - 1))" for j
    using pattern_pictures [of "name ! (min j (length name) - 1)"]
      pattern_facts(1) [of "name ! (min j (length name) - 1)"]
    by (cases "min j (length name) = 0"; simp only: led_after_def if_True if_False)
      (simp_all add: LED_SIZE_def zeros_def)
  ultimately show ?thesis
    unfolding Let_def by (intro exI [of _ d] conjI allI impI) (simp_all only: length_map nth_map)
qed

theorem name_displayed_witness:
  "\<exists>d. run_events display_step (display_start ''k!'' NUL)
      [ReaderTurn, WriterTurn, ReaderTurn, ReaderTurn, WriterTurn, WriterTurn, ReaderTurn] = Some d \<and>
    r_sent (d_reader d) ! 0 = zeros 16 \<and>
    set (red_lines (r_sent (d_reader d) ! 2)) =
      {UpperMiddle, LowerMiddle, UpperRightSlash, LowerRightSlash} \<and>
    red_lines (r_sent (d_reader d) ! 3) = []"
proof -
  let ?es = "[ReaderTurn, WriterTurn, ReaderTurn, ReaderTurn, WriterTurn, WriterTurn, ReaderTurn]"
  have "drawing CHR ''k'' = [UpperMiddle, LowerMiddle, UpperRightSlash, LowerRightSlash]"
    and "drawing CHR ''!'' = []" by code_simp+
  moreover have "NUL \<notin> set ''k!''" by (simp add: NUL_def)
  then obtain d where "run_events display_step (display_start ''k!'' NUL) ?es = Some d"
    and "\<forall>i < 4. let k = min ([0, 1, 1, 3] ! i) 2; data = r_sent (d_reader d) ! i
      in if k = 0 then data = zeros 16 else pictures data (''k!'' ! (k - 1))"
    using name_displayed [of "''k!''" NUL ?es] by (auto simp: numeral_eq_Suc)
  moreover from this(2) have "r_sent (d_reader d) ! 0 = zeros 16"
    "pictures (r_sent (d_reader d) ! 2) CHR ''k''" "pictures (r_sent (d_reader d) ! 3) CHR ''!''"
    by (auto simp: Let_def dest: spec [of _ 0] spec [of _ 2] spec [of _ 3])
  ultimately show ?thesis by (intro exI [of _ d]) (simp add: pictures_def)
qed

end
