(* ===== verification/Hw2_Line.thy ===== *)
theory Hw2_Line
  imports CLib
begin

text \<open>
  The line client and server of hw2, \<open>hw2/client.c\<close> and \<open>hw2/server.c\<close>, after their connection has
  been set up, and the two of them connected.

  \<^item> The client is a state machine over its 1024-byte buffer; an event is what the operating
    system answers to the call it is at: the bytes a \<open>read\<close> gives (\<open>None\<close> when it fails, none at the
    end of the stream) and whether \<open>send\<close> and \<open>close\<close> succeed.
  \<^item> The server handles one connection at a time.
  \<^item> \<open>line_pair\<close> joins them by the two byte streams of the connection. A \<open>read\<close> blocks while its
    stream is empty and the other side has not closed; otherwise it gives any non-empty prefix.
\<close>

section \<open>The client\<close>

definition HW2_BUFFER :: nat where "HW2_BUFFER = 1024"

definition please_wait :: "char list" where
  "please_wait = ''Please wait a few minutes...'' @ [LF]"

text \<open>
  \<open>fgets (buf, n, stdin)\<close>: at most \<open>n - 1\<close> characters up to and with the first newline; at the end
  of the input it stores nothing. The array and what is left of the input.
\<close>

definition first_line :: "char list \<Rightarrow> char list" where
  "first_line inp = takeWhile (\<lambda>c. c \<noteq> LF) inp @ (if LF \<in> set inp then [LF] else [])"

definition fgets :: "char list \<Rightarrow> nat \<Rightarrow> char list \<Rightarrow> char list \<times> char list" where
  "fgets buf n inp =
    (if inp = [] then (buf, [])
     else (let line = take (n - 1) (first_line inp)
           in (overlay (line @ [NUL]) buf, drop (length line) inp)))"

datatype client_pc =
    CReading | CWaiting | CTyping | CSending | CClosing | CExited int | CUndefined

record line_client =
  c_pc :: client_pc
  c_buffer :: "char list"
  c_stdin :: "char list"
  c_screen :: "char list"
  c_sent :: "char list list"

definition line_client_start :: "char list \<Rightarrow> line_client" where
  "line_client_start inp = \<lparr>c_pc = CReading, c_buffer = zeros HW2_BUFFER, c_stdin = inp,
    c_screen = [], c_sent = []\<rparr>"

text \<open>A successful read: the bytes, the NUL after them, and the string on the screen.\<close>

definition show_received :: "line_client \<Rightarrow> char list \<Rightarrow> line_client" where
  "show_received c bytes =
    (let b = overlay (bytes @ [NUL]) (c_buffer c)
     in c\<lparr>c_buffer := b, c_screen := c_screen c @ cstr b\<rparr>)"

definition first_read :: "line_client \<Rightarrow> char list option \<Rightarrow> line_client" where
  "first_read c answer =
    (case answer of
       None \<Rightarrow> c\<lparr>c_pc := CExited 1\<rparr>
     | Some bytes \<Rightarrow>
         if bytes = []
         then c\<lparr>c_screen := c_screen c @ ''Server closed the connection'' @ [LF], c_pc := CClosing\<rparr>
         else (let c' = show_received c bytes
               in c'\<lparr>c_pc := (if strcmp_eq (c_buffer c') please_wait then CWaiting else CTyping)\<rparr>))"

text \<open>The read after the waiting message is not checked: a failure stores the NUL before the buffer.\<close>

definition second_read :: "line_client \<Rightarrow> char list option \<Rightarrow> line_client" where
  "second_read c answer =
    (case answer of
       None \<Rightarrow> c\<lparr>c_pc := CUndefined\<rparr>
     | Some bytes \<Rightarrow> (show_received c bytes)\<lparr>c_pc := CTyping\<rparr>)"

definition type_line :: "line_client \<Rightarrow> line_client" where
  "type_line c =
    (let (b, rest) = fgets (c_buffer c) HW2_BUFFER (c_stdin c);
         c' = c\<lparr>c_buffer := b, c_stdin := rest\<rparr>
     in if strncmp_eq b ''exit'' 4
        then c'\<lparr>c_screen := c_screen c @ ''Exiting...'' @ [LF], c_pc := CClosing\<rparr>
        else c'\<lparr>c_pc := CSending\<rparr>)"

definition send_line :: "line_client \<Rightarrow> bool \<Rightarrow> line_client" where
  "send_line c ok =
    (if ok then c\<lparr>c_sent := c_sent c @ [cstr (c_buffer c)], c_pc := CReading\<rparr>
     else c\<lparr>c_pc := CExited 1\<rparr>)"

definition close_client :: "line_client \<Rightarrow> bool \<Rightarrow> line_client" where
  "close_client c ok =
    (if ok then c\<lparr>c_screen := c_screen c @ ''Client closed'' @ [LF], c_pc := CExited 0\<rparr>
     else c\<lparr>c_pc := CExited 1\<rparr>)"

datatype client_event = Got "char list option" | Typed | Sent bool | ClosedSocket bool

text \<open>A \<open>read\<close> gives at most 1023 bytes.\<close>

definition short_answer :: "nat \<Rightarrow> char list option \<Rightarrow> bool" where
  "short_answer n answer = (case answer of None \<Rightarrow> True | Some bytes \<Rightarrow> length bytes \<le> n)"

fun line_client_step :: "line_client \<Rightarrow> client_event \<Rightarrow> line_client option" where
  "line_client_step c (Got answer) =
    (if \<not> short_answer (HW2_BUFFER - 1) answer then None
     else if c_pc c = CReading then Some (first_read c answer)
     else if c_pc c = CWaiting then Some (second_read c answer) else None)"
| "line_client_step c Typed = (if c_pc c = CTyping then Some (type_line c) else None)"
| "line_client_step c (Sent ok) = (if c_pc c = CSending then Some (send_line c ok) else None)"
| "line_client_step c (ClosedSocket ok) =
    (if c_pc c = CClosing then Some (close_client c ok) else None)"

section \<open>The server\<close>

datatype server_pc = SAccepting | SReading | SReplying | SClosing | SUndefined

record line_server =
  s_pc :: server_pc
  s_screen :: "char list"

definition line_server_start :: line_server where
  "line_server_start = \<lparr>s_pc = SAccepting, s_screen = []\<rparr>"

definition hello :: "char list" where "hello = ''Hello from server!''"

definition handle_connection :: "line_server \<Rightarrow> char list option \<Rightarrow> line_server" where
  "handle_connection s answer =
    (let buffer = (case answer of None \<Rightarrow> zeros HW2_BUFFER
                   | Some bytes \<Rightarrow> overlay bytes (zeros HW2_BUFFER))
     in if terminated buffer
        then s\<lparr>s_screen := s_screen s @ ''Received message from client: '' @ cstr buffer @ [LF],
               s_pc := SReplying\<rparr>
        else s\<lparr>s_pc := SUndefined\<rparr>)"

section \<open>One turn of the client\<close>

definition line_ok :: "char list \<Rightarrow> bool" where
  "line_ok l \<longleftrightarrow> NUL \<notin> set l \<and> LF \<notin> set l \<and> length l < HW2_BUFFER - 1 \<and> take 4 l \<noteq> ''exit''"

definition message_ok :: "char list \<Rightarrow> bool" where
  "message_ok m \<longleftrightarrow> m \<noteq> [] \<and> NUL \<notin> set m \<and> length m < HW2_BUFFER"

lemma cstr_show_received:
  "NUL \<notin> set bytes \<Longrightarrow> cstr (c_buffer (show_received c bytes)) = bytes"
  by (simp add: show_received_def Let_def cstr_overlay)

lemma show_received_fields [simp]:
  "c_stdin (show_received c bytes) = c_stdin c" "c_sent (show_received c bytes) = c_sent c"
  "c_pc (show_received c bytes) = c_pc c"
  by (simp_all add: show_received_def Let_def)

lemma show_received_screen:
  "NUL \<notin> set bytes \<Longrightarrow> c_screen (show_received c bytes) = c_screen c @ bytes"
  by (simp add: show_received_def Let_def cstr_overlay)

lemma please_wait_ok [simp]: "NUL \<notin> set please_wait" "please_wait \<noteq> []" "length please_wait = 29"
  by (simp_all add: please_wait_def LF_def NUL_def)

lemma fgets_line:
  assumes "LF \<notin> set l" and "length l < n - 1"
  shows "fgets buf n (l @ LF # rest) = (overlay (l @ [LF, NUL]) buf, rest)"
proof -
  have "first_line (l @ LF # rest) = l @ [LF]"
    using assms(1) by (subst first_line_def, subst takeWhile_all_append) auto
  then show ?thesis using assms(2) by (simp add: fgets_def)
qed

lemma exit_literal: "cstr ''exit'' = ''exit''"
  by (rule cstr_id) (simp add: NUL_def)

lemma type_line_typed:
  assumes "line_ok l" and "c_stdin c = l @ LF # rest"
  shows "type_line c = c\<lparr>c_buffer := overlay (l @ [LF, NUL]) (c_buffer c), c_stdin := rest,
    c_pc := CSending\<rparr>"
    and "cstr (overlay (l @ [LF, NUL]) (c_buffer c)) = l @ [LF]"
proof -
  show cs: "cstr (overlay (l @ [LF, NUL]) (c_buffer c)) = l @ [LF]"
    using assms(1) cstr_overlay [of "l @ [LF]" "c_buffer c"] by (simp add: line_ok_def)
  have "take 4 (l @ [LF]) \<noteq> ''exit''"
  proof (cases "4 \<le> length l")
    case False
    then have "take 4 (l @ [LF]) = l @ [LF]" by simp
    then show ?thesis using False by (auto simp: LF_def dest: arg_cong [of _ _ last])
  qed (use assms(1) in \<open>simp add: line_ok_def\<close>)
  then have "\<not> strncmp_eq (overlay (l @ [LF, NUL]) (c_buffer c)) ''exit'' 4"
    using exit_literal by (simp add: strncmp_eq_def cs)
  then show "type_line c = c\<lparr>c_buffer := overlay (l @ [LF, NUL]) (c_buffer c), c_stdin := rest,
      c_pc := CSending\<rparr>"
    using assms fgets_line [of l HW2_BUFFER "c_buffer c" rest]
    by (simp add: type_line_def line_ok_def HW2_BUFFER_def)
qed

text \<open>
  What the server answers in a turn: one message, or the waiting message and the one it announces.
\<close>

datatype reply = Plain "char list" | Announced "char list"

fun reply_ok :: "reply \<Rightarrow> bool" where
  "reply_ok (Plain m) \<longleftrightarrow> message_ok m \<and> m \<noteq> please_wait"
| "reply_ok (Announced m) \<longleftrightarrow> message_ok m"

fun reply_reads :: "reply \<Rightarrow> client_event list" where
  "reply_reads (Plain m) = [Got (Some m)]"
| "reply_reads (Announced m) = [Got (Some please_wait), Got (Some m)]"

fun reply_text :: "reply \<Rightarrow> char list" where
  "reply_text (Plain m) = m"
| "reply_text (Announced m) = please_wait @ m"

lemma reply_read:
  assumes "reply_ok r" and "c_pc c = CReading"
  shows "\<exists>b. run_events line_client_step c (reply_reads r) =
    Some (c\<lparr>c_buffer := b, c_screen := c_screen c @ reply_text r, c_pc := CTyping\<rparr>)"
proof (cases r)
  case (Plain m)
  then have "NUL \<notin> set m" "m \<noteq> []" "length m \<le> HW2_BUFFER - 1" "m \<noteq> please_wait"
    using assms(1) by (auto simp: message_ok_def)
  then show ?thesis using assms(2) Plain
    by (auto simp: short_answer_def first_read_def Let_def cstr_overlay show_received_def)
next
  case (Announced m)
  then have m: "NUL \<notin> set m" "length m \<le> HW2_BUFFER - 1" using assms(1) by (auto simp: message_ok_def)
  let ?c = "c\<lparr>c_buffer := overlay (please_wait @ [NUL]) (c_buffer c),
    c_screen := c_screen c @ please_wait, c_pc := CWaiting\<rparr>"
  have "line_client_step c (Got (Some please_wait)) = Some ?c"
    using assms(2) cstr_overlay [of please_wait "c_buffer c"]
    by (simp add: short_answer_def HW2_BUFFER_def first_read_def Let_def show_received_def)
  moreover have "line_client_step ?c (Got (Some m)) =
      Some (c\<lparr>c_buffer := overlay (m @ [NUL]) (overlay (please_wait @ [NUL]) (c_buffer c)),
        c_screen := c_screen c @ please_wait @ m, c_pc := CTyping\<rparr>)"
    using m cstr_overlay [of m "overlay (please_wait @ [NUL]) (c_buffer c)"]
    by (simp add: short_answer_def second_read_def Let_def show_received_def)
  ultimately show ?thesis using Announced by auto
qed

lemma typed_and_sent:
  assumes "line_ok l" and "c_stdin c = l @ LF # rest" and "c_pc c = CTyping"
  shows "\<exists>b. run_events line_client_step c [Typed, Sent True] =
    Some (c\<lparr>c_buffer := b, c_stdin := rest, c_sent := c_sent c @ [l @ [LF]], c_pc := CReading\<rparr>)"
  using type_line_typed [OF assms(1,2)] assms(3) by (auto simp: send_line_def)

section \<open>A dialogue\<close>

definition turn_events :: "reply \<Rightarrow> client_event list" where
  "turn_events r = reply_reads r @ [Typed, Sent True]"

lemma one_turn:
  assumes "reply_ok r" and "line_ok l" and "c_pc c = CReading" and "c_stdin c = l @ LF # rest"
  shows "\<exists>b. run_events line_client_step c (turn_events r) =
    Some (c\<lparr>c_buffer := b, c_stdin := rest, c_screen := c_screen c @ reply_text r,
      c_sent := c_sent c @ [l @ [LF]]\<rparr>)"
proof -
  obtain b where r: "run_events line_client_step c (reply_reads r) =
      Some (c\<lparr>c_buffer := b, c_screen := c_screen c @ reply_text r, c_pc := CTyping\<rparr>)"
    using reply_read [OF assms(1,3)] by blast
  let ?d = "c\<lparr>c_buffer := b, c_screen := c_screen c @ reply_text r, c_pc := CTyping\<rparr>"
  obtain b' where "run_events line_client_step ?d [Typed, Sent True] =
      Some (?d\<lparr>c_buffer := b', c_stdin := rest, c_sent := c_sent ?d @ [l @ [LF]], c_pc := CReading\<rparr>)"
    using typed_and_sent [OF assms(2), of ?d rest] assms(4) by auto
  then show ?thesis
    using assms(3) unfolding turn_events_def run_events_append r option.case
    by (auto intro!: exI [of _ b'] line_client.equality)
qed

lemma all_turns:
  assumes "length rs = length ls" and "list_all reply_ok rs" and "list_all line_ok ls"
    and "c_pc c = CReading" and "c_stdin c = concat (map (\<lambda>l. l @ [LF]) ls) @ rest"
  shows "\<exists>b. run_events line_client_step c (concat (map turn_events rs)) =
    Some (c\<lparr>c_buffer := b, c_stdin := rest, c_screen := c_screen c @ concat (map reply_text rs),
      c_sent := c_sent c @ map (\<lambda>l. l @ [LF]) ls\<rparr>)"
  using assms
proof (induction rs ls arbitrary: c rule: list_induct2)
  case Nil
  then show ?case by (auto intro!: exI [of _ "c_buffer c"] line_client.equality)
next
  case (Cons r rs l ls)
  let ?rest = "concat (map (\<lambda>l. l @ [LF]) ls) @ rest"
  obtain b where b: "run_events line_client_step c (turn_events r) =
    Some (c\<lparr>c_buffer := b, c_stdin := ?rest, c_screen := c_screen c @ reply_text r,
      c_sent := c_sent c @ [l @ [LF]]\<rparr>)"
    using one_turn [of r l c ?rest] Cons.prems by auto
  let ?d = "c\<lparr>c_buffer := b, c_stdin := ?rest, c_screen := c_screen c @ reply_text r,
      c_sent := c_sent c @ [l @ [LF]]\<rparr>"
  obtain b' where "run_events line_client_step ?d (concat (map turn_events rs)) =
    Some (?d\<lparr>c_buffer := b', c_stdin := rest, c_screen := c_screen ?d @ concat (map reply_text rs),
      c_sent := c_sent ?d @ map (\<lambda>l. l @ [LF]) ls\<rparr>)"
    using Cons.IH [of ?d] Cons.prems by auto
  then show ?case by (auto simp: run_events_append b)
qed

lemma fgets_exit:
  "fgets buf HW2_BUFFER (''exit'' @ LF # rest) = (overlay (''exit'' @ [LF, NUL]) buf, rest)"
  by (rule fgets_line) (simp_all add: LF_def HW2_BUFFER_def)

lemma type_exit:
  assumes "c_stdin c = ''exit'' @ LF # rest"
  shows "type_line c = c\<lparr>c_buffer := overlay (''exit'' @ [LF, NUL]) (c_buffer c), c_stdin := rest,
    c_screen := c_screen c @ ''Exiting...'' @ [LF], c_pc := CClosing\<rparr>"
proof -
  have cs: "cstr (overlay (''exit'' @ [LF, NUL]) (c_buffer c)) = ''exit'' @ [LF]"
    using cstr_overlay [of "''exit'' @ [LF]" "c_buffer c"] by (simp add: NUL_def LF_def)
  have "strncmp_eq (overlay (''exit'' @ [LF, NUL]) (c_buffer c)) ''exit'' 4"
    unfolding strncmp_eq_def cs exit_literal by simp
  then show ?thesis
    unfolding type_line_def assms fgets_exit by simp
qed

section \<open>Properties of the client\<close>

text \<open>
  C18. Connected to a server that speaks first, the client carries a whole dialogue: it shows every
  message in order, reads the one that a waiting message announces without asking the user, sends
  every line typed exactly as typed, newline included, and after \<open>exit\<close> closes the connection and
  leaves with status 0.
\<close>

theorem client_dialogue:
  assumes "length rs = length ls" and "list_all reply_ok (rs @ [r])" and "list_all line_ok ls"
    and "inp = concat (map (\<lambda>l. l @ [LF]) ls) @ ''exit'' @ [LF]"
  shows "\<exists>c. run_events line_client_step (line_client_start inp)
      (concat (map turn_events rs) @ reply_reads r @ [Typed, ClosedSocket True]) = Some c \<and>
    c_pc c = CExited 0 \<and> c_sent c = map (\<lambda>l. l @ [LF]) ls \<and>
    c_screen c = concat (map reply_text (rs @ [r])) @ ''Exiting...'' @ [LF] @ ''Client closed'' @ [LF]"
proof -
  let ?start = "line_client_start inp" and ?exit = "''exit'' @ [LF]"
  obtain b where turns: "run_events line_client_step ?start (concat (map turn_events rs)) =
    Some (?start\<lparr>c_buffer := b, c_stdin := ?exit, c_screen := concat (map reply_text rs),
      c_sent := map (\<lambda>l. l @ [LF]) ls\<rparr>)"
    using all_turns [of rs ls ?start ?exit] assms by (auto simp: line_client_start_def)
  let ?d = "?start\<lparr>c_buffer := b, c_stdin := ?exit, c_screen := concat (map reply_text rs),
      c_sent := map (\<lambda>l. l @ [LF]) ls\<rparr>"
  obtain b' where last: "run_events line_client_step ?d (reply_reads r) =
      Some (?d\<lparr>c_buffer := b', c_screen := c_screen ?d @ reply_text r, c_pc := CTyping\<rparr>)"
    using reply_read [of r ?d] assms(2) by (auto simp: line_client_start_def)
  show ?thesis
    unfolding run_events_append turns option.case last
    by (simp add: type_exit [where rest = "[]"] close_client_def)
qed

theorem client_dialogue_witness:
  "\<exists>c :: line_client. c_pc c = CExited 0 \<and> c_sent c = [''Yes'' @ [LF]] \<and>
    c_screen c = ''order?'' @ please_wait @ ''arrived'' @ ''Exiting...'' @ [LF] @ ''Client closed'' @ [LF]"
proof -
  have "list_all reply_ok [Plain ''order?'', Announced ''arrived'']" "list_all line_ok [''Yes'']"
    by (simp_all add: message_ok_def line_ok_def HW2_BUFFER_def NUL_def LF_def please_wait_def)
  then obtain c :: line_client where "c_pc c = CExited 0" "c_sent c = map (\<lambda>l. l @ [LF]) [''Yes'']"
    and "c_screen c = concat (map reply_text ([Plain ''order?''] @ [Announced ''arrived''])) @
      ''Exiting...'' @ [LF] @ ''Client closed'' @ [LF]"
    using client_dialogue [of "[Plain ''order?'']" "[''Yes'']" "Announced ''arrived''", OF _ _ _ refl]
    by auto
  then show ?thesis by auto
qed

lemma line_client_start_fields [simp]:
  "c_pc (line_client_start inp) = CReading" "c_stdin (line_client_start inp) = inp"
  "c_buffer (line_client_start inp) = zeros HW2_BUFFER"
  "c_screen (line_client_start inp) = []" "c_sent (line_client_start inp) = []"
  by (simp_all add: line_client_start_def)

text \<open>
  C23. At the end of its input the client echoes. \<open>fgets\<close> then stores nothing and its result is not
  checked, so the buffer still holds what the server sent last: every message is sent back to the
  server as if the user had typed it, and the client goes on reading for ever.
\<close>

theorem input_end_echoes:
  assumes "c_pc c = CReading" and "c_stdin c = []"
    and "list_all (\<lambda>m. message_ok m \<and> m \<noteq> please_wait \<and> take 4 m \<noteq> ''exit'') ms"
  shows "\<exists>c'. run_events line_client_step c
      (concat (map (\<lambda>m. [Got (Some m), Typed, Sent True]) ms)) = Some c' \<and>
    c_pc c' = CReading \<and> c_stdin c' = [] \<and> c_sent c' = c_sent c @ ms \<and>
    c_screen c' = c_screen c @ concat ms"
  using assms
proof (induction ms arbitrary: c)
  case (Cons m ms)
  have m: "message_ok m" "m \<noteq> please_wait" "take 4 m \<noteq> ''exit''" using Cons.prems(3) by simp_all
  let ?b = "overlay (m @ [NUL]) (c_buffer c)"
  let ?d = "c\<lparr>c_buffer := ?b, c_screen := c_screen c @ m, c_sent := c_sent c @ [m]\<rparr>"
  have cs: "cstr ?b = m" using m(1) by (simp add: message_ok_def cstr_overlay)
  have "\<not> strncmp_eq ?b ''exit'' 4"
    unfolding strncmp_eq_def cs exit_literal using m(3) by simp
  then have "run_events line_client_step c [Got (Some m), Typed, Sent True] = Some ?d"
    using Cons.prems(1,2) m(1,2)
    by (auto simp: short_answer_def first_read_def Let_def show_received_def cs message_ok_def
        HW2_BUFFER_def type_line_def fgets_def send_line_def intro!: line_client.equality)
  moreover obtain c' where "run_events line_client_step ?d
      (concat (map (\<lambda>m. [Got (Some m), Typed, Sent True]) ms)) = Some c'"
    and "c_pc c' = CReading \<and> c_stdin c' = [] \<and> c_sent c' = c_sent ?d @ ms \<and>
      c_screen c' = c_screen ?d @ concat ms"
    using Cons.IH [of ?d] Cons.prems by auto
  ultimately show ?case
    unfolding list.map concat.simps run_events_append by auto
qed simp

theorem input_end_echoes_witness:
  "\<exists>c. run_events line_client_step (line_client_start [])
      [Got (Some ''Hello''), Typed, Sent True, Got (Some ''unknown''), Typed, Sent True] = Some c \<and>
    c_sent c = [''Hello'', ''unknown'']"
proof -
  have "list_all (\<lambda>m. message_ok m \<and> m \<noteq> please_wait \<and> take 4 m \<noteq> ''exit'') [''Hello'', ''unknown'']"
    by (simp add: message_ok_def HW2_BUFFER_def NUL_def please_wait_def)
  then show ?thesis
    using input_end_echoes [of "line_client_start []" "[''Hello'', ''unknown'']"]
    by (auto simp del: run_events.simps line_client_step.simps)
qed

section \<open>The buffer of the client\<close>

definition buffer_ok :: "line_client \<Rightarrow> bool" where
  "buffer_ok c \<longleftrightarrow> length (c_buffer c) = HW2_BUFFER \<and> terminated (c_buffer c)"

lemma overlay_ok:
  "length b = n \<Longrightarrow> length s < n \<Longrightarrow> length (overlay (s @ [NUL]) b) = n \<and> terminated (overlay (s @ [NUL]) b)"
  by (simp add: length_overlay) (simp add: terminated_def overlay_def)

lemma fgets_ok:
  assumes "length b = HW2_BUFFER" and "terminated b"
  shows "length (fst (fgets b HW2_BUFFER inp)) = HW2_BUFFER \<and> terminated (fst (fgets b HW2_BUFFER inp))"
  using assms overlay_ok [of b HW2_BUFFER "take (HW2_BUFFER - 1) (first_line inp)"]
  by (auto simp: fgets_def Let_def HW2_BUFFER_def)

lemma buffer_ok_start: "buffer_ok (line_client_start inp)"
  by (simp add: buffer_ok_def HW2_BUFFER_def terminated_def zeros_def)

lemma buffer_ok_step:
  assumes "buffer_ok c" and "line_client_step c e = Some c'"
  shows "buffer_ok c'"
proof -
  have recv: "buffer_ok (show_received c bytes)" if "length bytes \<le> HW2_BUFFER - 1" for bytes
    using overlay_ok [of "c_buffer c" HW2_BUFFER bytes] assms(1) that
    by (auto simp: buffer_ok_def show_received_def Let_def HW2_BUFFER_def)
  show ?thesis
    using assms recv fgets_ok [of "c_buffer c" "c_stdin c"]
    by (cases e) (auto simp: buffer_ok_def short_answer_def first_read_def second_read_def Let_def
        type_line_def send_line_def close_client_def split: option.splits if_splits prod.splits)
qed

interpretation client_buffer: inductive_invariant "line_client_start inp" line_client_step buffer_ok
  for inp
  by unfold_locales (rule buffer_ok_start, rule buffer_ok_step)

text \<open>
  C22. The buffer of the client is never overrun and always holds a string: every read leaves room
  for the NUL, and so does every line of input. The one exception is a read that fails after a
  waiting message, whose result \<open>- 1\<close> is used as an index: exactly then the behaviour is undefined.
\<close>

theorem client_buffer_safe:
  assumes "reachable (line_client_start inp) line_client_step c"
  shows "length (c_buffer c) = HW2_BUFFER \<and> terminated (c_buffer c) \<and>
    (\<forall>e c'. line_client_step c e = Some c' \<longrightarrow>
      (c_pc c' = CUndefined \<longleftrightarrow> c_pc c = CWaiting \<and> e = Got None))"
proof (intro conjI allI impI)
  show "length (c_buffer c) = HW2_BUFFER" "terminated (c_buffer c)"
    using client_buffer.inv_reachable [OF assms] by (simp_all add: buffer_ok_def)
  fix e c' assume "line_client_step c e = Some c'"
  then show "c_pc c' = CUndefined \<longleftrightarrow> c_pc c = CWaiting \<and> e = Got None"
    by (cases e) (auto simp: first_read_def second_read_def Let_def type_line_def send_line_def
        close_client_def split: option.splits if_splits prod.splits)
qed

theorem client_buffer_safe_witness:
  "\<exists>c. reachable (line_client_start []) line_client_step c \<and> terminated (c_buffer c) \<and>
    c_pc c = CWaiting \<and> (\<exists>c'. line_client_step c (Got None) = Some c' \<and> c_pc c' = CUndefined)"
proof -
  have "run_events line_client_step (line_client_start []) [Got (Some please_wait)] =
      Some ((first_read (line_client_start []) (Some please_wait)))"
    by (simp add: short_answer_def HW2_BUFFER_def line_client_start_def)
  then have r: "reachable (line_client_start []) line_client_step
      (first_read (line_client_start []) (Some please_wait))" by (rule run_reachable)
  moreover have "c_pc (first_read (line_client_start []) (Some please_wait)) = CWaiting"
    by (simp add: first_read_def Let_def show_received_def cstr_overlay)
  moreover have "line_client_step (first_read (line_client_start []) (Some please_wait)) (Got None) =
      Some (second_read (first_read (line_client_start []) (Some please_wait)) None)"
    using calculation(2) by (simp add: short_answer_def)
  ultimately show ?thesis using client_buffer_safe [OF r] by blast
qed

section \<open>Client and server connected\<close>

record line_pair =
  cl :: line_client
  sv :: line_server
  up :: "char list"
  down :: "char list"
  cl_closed :: bool
  sv_closed :: bool

definition line_pair_start :: "char list \<Rightarrow> line_pair" where
  "line_pair_start inp = \<lparr>cl = line_client_start inp, sv = line_server_start, up = [], down = [],
    cl_closed = False, sv_closed = False\<rparr>"

text \<open>
  \<open>read\<close> on a stream: \<open>n\<close> bytes, between one and what there is and fits; the end of the stream when
  it is empty and the writer has closed; blocked otherwise (\<open>None\<close>).
\<close>

definition stream_read :: "nat \<Rightarrow> nat \<Rightarrow> char list \<Rightarrow> bool \<Rightarrow> (char list \<times> char list) option" where
  "stream_read cap n stream closed =
    (if stream = [] then (if closed then Some ([], []) else None)
     else if 0 < n \<and> n \<le> cap \<and> n \<le> length stream then Some (take n stream, drop n stream)
     else None)"

datatype pair_event =
    ClientReads nat | ClientTypes | ClientSends | ClientCloses
  | ServerAccepts | ServerReads nat | ServerReplies | ServerCloses

fun pair_step :: "line_pair \<Rightarrow> pair_event \<Rightarrow> line_pair option" where
  "pair_step p (ClientReads n) =
    (case stream_read (HW2_BUFFER - 1) n (down p) (sv_closed p) of
       None \<Rightarrow> None
     | Some (bytes, rest) \<Rightarrow>
         map_option (\<lambda>c. p\<lparr>cl := c, down := rest\<rparr>) (line_client_step (cl p) (Got (Some bytes))))"
| "pair_step p ClientTypes = map_option (\<lambda>c. p\<lparr>cl := c\<rparr>) (line_client_step (cl p) Typed)"
| "pair_step p ClientSends =
    map_option (\<lambda>c. p\<lparr>cl := c, up := up p @ last (c_sent c)\<rparr>) (line_client_step (cl p) (Sent True))"
| "pair_step p ClientCloses =
    map_option (\<lambda>c. p\<lparr>cl := c, cl_closed := True\<rparr>) (line_client_step (cl p) (ClosedSocket True))"
| "pair_step p ServerAccepts =
    (if s_pc (sv p) = SAccepting \<and> \<not> sv_closed p then Some (p\<lparr>sv := (sv p)\<lparr>s_pc := SReading\<rparr>\<rparr>)
     else None)"
| "pair_step p (ServerReads n) =
    (if s_pc (sv p) = SReading
     then (case stream_read HW2_BUFFER n (up p) (cl_closed p) of
             None \<Rightarrow> None
           | Some (bytes, rest) \<Rightarrow> Some (p\<lparr>sv := handle_connection (sv p) (Some bytes), up := rest\<rparr>))
     else None)"
| "pair_step p ServerReplies =
    (if s_pc (sv p) = SReplying then Some (p\<lparr>sv := (sv p)\<lparr>s_pc := SClosing\<rparr>, down := down p @ hello\<rparr>)
     else None)"
| "pair_step p ServerCloses =
    (if s_pc (sv p) = SClosing then Some (p\<lparr>sv := (sv p)\<lparr>s_pc := SAccepting\<rparr>, sv_closed := True\<rparr>)
     else None)"

definition accepted_pair :: "char list \<Rightarrow> line_pair" where
  "accepted_pair inp = (line_pair_start inp)\<lparr>sv := line_server_start\<lparr>s_pc := SReading\<rparr>\<rparr>"

definition both_wait :: "char list \<Rightarrow> line_pair \<Rightarrow> bool" where
  "both_wait inp p \<longleftrightarrow> p = line_pair_start inp \<or> p = accepted_pair inp"

lemma start_steps: "pair_step (line_pair_start inp) e = Some p \<longleftrightarrow>
    e = ServerAccepts \<and> p = accepted_pair inp"
  by (cases e) (auto simp: line_pair_start_def accepted_pair_def line_server_start_def stream_read_def)

lemma accepted_stuck: "pair_step (accepted_pair inp) e = None"
  by (cases e) (auto simp: line_pair_start_def accepted_pair_def line_server_start_def stream_read_def)

interpretation pair_waits: inductive_invariant "line_pair_start inp" pair_step "both_wait inp" for inp
  by unfold_locales (auto simp: both_wait_def start_steps accepted_stuck)

text \<open>
  C20. The client and the server of hw2 cannot exchange a message. Both read first: once the
  connection is accepted no step of either is possible, whatever the user has typed, and until
  then none but the accept. Nothing is ever shown or sent.
\<close>

theorem hw2_deadlock:
  assumes "reachable (line_pair_start inp) pair_step p"
  shows "c_screen (cl p) = [] \<and> c_sent (cl p) = [] \<and> s_screen (sv p) = [] \<and> down p = [] \<and>
    (s_pc (sv p) = SReading \<longrightarrow> (\<forall>e. pair_step p e = None)) \<and>
    (s_pc (sv p) \<noteq> SReading \<longrightarrow> (\<forall>e. pair_step p e \<noteq> None \<longrightarrow> e = ServerAccepts))"
proof -
  have quiet: "c_screen (cl q) = [] \<and> c_sent (cl q) = [] \<and> s_screen (sv q) = [] \<and> down q = []"
    if "q = line_pair_start inp \<or> q = accepted_pair inp" for q
    using that by (auto simp: line_pair_start_def accepted_pair_def line_server_start_def)
  have "s_pc (sv (line_pair_start inp)) = SAccepting" "s_pc (sv (accepted_pair inp)) = SReading"
    by (simp_all add: line_pair_start_def accepted_pair_def line_server_start_def)
  moreover have "p = line_pair_start inp \<or> p = accepted_pair inp"
    using pair_waits.inv_reachable [OF assms] by (simp add: both_wait_def)
  ultimately show ?thesis
    using quiet [of p] by (elim disjE) (simp_all add: start_steps accepted_stuck)
qed

theorem hw2_deadlock_witness:
  "\<exists>p. reachable (line_pair_start ''hi'') pair_step p \<and> (\<forall>e. pair_step p e = None)"
proof -
  have r: "reachable (line_pair_start ''hi'') pair_step (accepted_pair ''hi'')"
    by (rule run_reachable [of _ _ "[ServerAccepts]"])
      (simp add: line_pair_start_def accepted_pair_def line_server_start_def)
  have "s_pc (sv (accepted_pair ''hi'')) = SReading" by (simp add: accepted_pair_def)
  then show ?thesis using hw2_deadlock [OF r] r by blast
qed

end
