(* ===== verification/Hw2_Hw3.thy ===== *)
theory Hw2_Hw3
  imports Hw2_Line Hw3_Invariants
begin

text \<open>
  The client of hw2 connected to the delivery server of hw3, which it is written for (it waits for
  the message \<open>Please wait a few minutes...\<close> that only this server sends). The thread of the server
  that serves it has a fixed index; all the other threads, and the accept loop, go on as they
  like. The two byte streams of the connection are what the client has sent and the thread has
  not read, and the part of the thread's outbox that the client has not read.
\<close>

record online =
  shop :: server
  user :: line_client
  to_shop :: "char list"
  seen :: nat

datatype online_event =
    Shop event | ShopReads nat | UserReads nat | UserTypes | UserSends

definition is_recv_of :: "tid \<Rightarrow> event \<Rightarrow> bool" where
  "is_recv_of me e = (case e of Recv t _ \<Rightarrow> t = me | _ \<Rightarrow> False)"

definition to_user :: "tid \<Rightarrow> online \<Rightarrow> char list" where
  "to_user me p = drop (seen p) (concat (outbox (clients (shop p) ! me)))"

fun online_step :: "tid \<Rightarrow> online \<Rightarrow> online_event \<Rightarrow> online option" where
  "online_step me p (Shop e) =
    (if is_recv_of me e then None else map_option (\<lambda>s. p\<lparr>shop := s\<rparr>) (server_step (shop p) e))"
| "online_step me p (ShopReads n) =
    (case stream_read MAX_BUFFER_SIZE n (to_shop p) False of
       None \<Rightarrow> None
     | Some (bytes, rest) \<Rightarrow>
         map_option (\<lambda>s. p\<lparr>shop := s, to_shop := rest\<rparr>) (server_step (shop p) (Recv me bytes)))"
| "online_step me p (UserReads n) =
    (case stream_read (HW2_BUFFER - 1) n (to_user me p) False of
       None \<Rightarrow> None
     | Some (bytes, rest) \<Rightarrow>
         map_option (\<lambda>c. p\<lparr>user := c, seen := seen p + length bytes\<rparr>)
           (line_client_step (user p) (Got (Some bytes))))"
| "online_step me p UserTypes = map_option (\<lambda>c. p\<lparr>user := c\<rparr>) (line_client_step (user p) Typed)"
| "online_step me p UserSends =
    map_option (\<lambda>c. p\<lparr>user := c, to_shop := to_shop p @ last (c_sent c)\<rparr>)
      (line_client_step (user p) (Sent True))"

text \<open>The server, in any state, has just accepted the client.\<close>

definition connected :: "server \<Rightarrow> char list \<Rightarrow> online" where
  "connected s inp = \<lparr>shop = s\<lparr>clients := clients s @ [new_client]\<rparr>, user = line_client_start inp,
    to_shop = [], seen = 0\<rparr>"

definition mute :: "tid \<Rightarrow> char list \<Rightarrow> online \<Rightarrow> bool" where
  "mute me inp p \<longleftrightarrow> me < length (clients (shop p)) \<and> clients (shop p) ! me = new_client \<and>
    user p = line_client_start inp \<and> to_shop p = [] \<and> seen p = 0"

lemma outbox_new_client [simp]: "outbox new_client = []"
  by (simp add: new_client_def)

lemma new_client_blocked: "thread_step s t new_client = None"
  by (simp add: thread_step_def)

text \<open>A step of the server that is not a receive of this thread leaves the waiting thread alone.\<close>

lemma server_step_other:
  assumes "server_step s e = Some s'" and "\<not> is_recv_of me e"
    and "me < length (clients s)" and "clients s ! me = new_client"
  shows "me < length (clients s') \<and> clients s' ! me = new_client"
proof (cases e)
  case (Recv t bytes)
  then obtain s1 c1 where t: "t \<noteq> me" "t < length (clients s)"
      "recv_step s t (clients s ! t) bytes = Some (s1, c1)" "s' = put_client s1 t c1"
    using assms(1,2) by (auto simp: is_recv_of_def split: if_splits)
  moreover have "moves s t (clients s ! t) s1 c1" using t(3) by (auto simp: moves_def)
  then have "clients s1 = clients s" by (rule moves_clients)
  ultimately show ?thesis using assms(3,4) by simp
next
  case (Run t)
  then obtain s1 c1 where t: "t < length (clients s)"
      "thread_step s t (clients s ! t) = Some (s1, c1)" "s' = put_client s1 t c1"
    using assms(1) by (auto split: if_splits)
  moreover have "t \<noteq> me" using t(2) assms(4) new_client_blocked by auto
  moreover have "moves s t (clients s ! t) s1 c1" using t(2) by (simp add: moves_def)
  then have "clients s1 = clients s" by (rule moves_clients)
  ultimately show ?thesis using assms(3,4) by simp
qed (use assms in \<open>auto simp: nth_append\<close>)

lemma mute_start: "mute (length (clients s)) inp (connected s inp)"
  by (simp add: mute_def connected_def)

lemma mute_step:
  assumes "mute me inp p" and "online_step me p e = Some q"
  shows "mute me inp q"
proof (cases e)
  case (Shop e')
  then show ?thesis using assms server_step_other [of "shop p" e' _ me]
    by (auto simp: mute_def split: if_splits)
qed (use assms in \<open>auto simp: mute_def stream_read_def to_user_def\<close>)

interpretation online: inductive_invariant "connected s inp" "online_step (length (clients s))"
  "mute (length (clients s)) inp" for s inp
  by unfold_locales (rule mute_start, rule mute_step)

text \<open>
  C19. The client of hw2 never gets through to the server of hw3. From the moment it is accepted,
  whatever the other clients do and whatever its user has typed, it waits for a message, its
  thread waits for a request, and no step of either end is possible: nothing is shown, nothing is
  sent, and its thread never takes part in a delivery.
\<close>

theorem online_client_waits:
  assumes "reachable (connected s inp) (online_step (length (clients s))) p"
  shows "c_screen (user p) = [] \<and> c_sent (user p) = [] \<and>
    clients (shop p) ! length (clients s) = new_client \<and>
    (\<forall>e. online_step (length (clients s)) p e \<noteq> None \<longrightarrow>
      (\<exists>e'. e = Shop e' \<and> e' \<noteq> Run (length (clients s))))"
proof -
  have m: "mute (length (clients s)) inp p" using online.inv_reachable [OF assms] .
  then have "\<exists>e'. e = Shop e' \<and> e' \<noteq> Run (length (clients s))"
    if "online_step (length (clients s)) p e \<noteq> None" for e
    using that by (cases e) (auto simp: mute_def stream_read_def to_user_def is_recv_of_def
        new_client_blocked)
  with m show ?thesis by (auto simp: mute_def)
qed

theorem online_client_waits_witness:
  "\<exists>p. reachable (connected server_start ''order cookie 1'') (online_step 0) p \<and>
    length (clients (shop p)) = 2 \<and> c_screen (user p) = []"
proof -
  have start: "length (clients server_start) = 0" by (simp add: server_start_def)
  have run: "run_events (online_step 0) (connected server_start ''order cookie 1'') [Shop Accept] =
      Some ((connected server_start ''order cookie 1'')
        \<lparr>shop := server_start\<lparr>clients := [new_client, new_client]\<rparr>\<rparr>)"
    by (simp add: connected_def is_recv_of_def server_start_def)
  show ?thesis
    using run_reachable [OF run] online_client_waits [of server_start "''order cookie 1''"] start
    by (intro exI conjI) auto
qed

end
