(* ===== verification/Lab5_Fork.thy ===== *)
theory Lab5_Fork
  imports CLib
begin

text \<open>
  The fork server of lab5, \<open>lab5/lab5.c\<close>, from its accept loop on (the set-up of its socket is in
  \<open>Sockets\<close>): the parent, its children, and the handler that reaps them.

  \<^item> A process has a table of open descriptors and the buffer of its standard output. \<open>fork\<close> copies
    both; \<open>execlp\<close> keeps the descriptors and loses the buffer; \<open>exit\<close> writes the buffer out.
  \<^item> The standard output is line buffered when it is found to be a terminal at the first output,
    block buffered otherwise, as the C library documents it.
  \<^item> \<open>SIGCHLD\<close> is one pending flag: exits while it is set are not counted. The handler runs step by
    step, one \<open>waitpid\<close> at a time, and children may exit in between.
\<close>

section \<open>The standard output of a process\<close>

record stream =
  line_buffered :: "bool option"
  pending :: "char list"
  block :: nat

text \<open>\<open>printf\<close> of a text: the bytes that are written to descriptor 1, and the stream after it.\<close>

definition put_stdout :: "bool \<Rightarrow> char list \<Rightarrow> stream \<Rightarrow> char list \<times> stream" where
  "put_stdout terminal txt st =
    (let lines = (case line_buffered st of None \<Rightarrow> terminal | Some b \<Rightarrow> b);
         all = pending st @ txt;
         n = (if lines then length all - length (takeWhile (\<lambda>c. c \<noteq> LF) (rev all))
              else length all div block st * block st)
     in (take n all, st\<lparr>line_buffered := Some lines, pending := drop n all\<rparr>))"

section \<open>Processes\<close>

datatype ofile = Terminal | Disk | Listener | Conn nat

type_synonym fd_table = "int \<Rightarrow> ofile option"

datatype kid_state = Running | Zombie

text \<open>
  Of a child: its process id, whether it has exited, the connection it was forked for (counted from
  0 in the order accepted), its descriptors, the bytes written to descriptor 1, and whether its
  \<open>dup2\<close> succeeded. \<open>k_conn\<close> and \<open>k_dup\<close> are history, which no step reads.
\<close>

record kid =
  k_pid :: int
  k_state :: kid_state
  k_conn :: nat
  k_fds :: fd_table
  k_said :: "char list"
  k_dup :: bool

datatype fork_pc = Accepting | Forking int | Stopped

record forker =
  f_pc :: fork_pc
  f_fds :: fd_table
  f_stdout :: stream
  f_console :: "char list"
  f_accepted :: nat
  f_pids :: "int list"
  kids :: "kid list"
  sigchld :: bool
  in_handler :: bool

text \<open>The descriptors when the loop starts: 0, 1, 2 and the listening socket.\<close>

definition start_fds :: "int \<Rightarrow> ofile \<Rightarrow> fd_table" where
  "start_fds sockfd out = [0 \<mapsto> Terminal, 1 \<mapsto> out, 2 \<mapsto> Terminal, sockfd \<mapsto> Listener]"

definition forker_start :: "int \<Rightarrow> ofile \<Rightarrow> nat \<Rightarrow> forker" where
  "forker_start sockfd out blk = \<lparr>f_pc = Accepting, f_fds = start_fds sockfd out,
    f_stdout = \<lparr>line_buffered = None, pending = [], block = blk\<rparr>, f_console = [], f_accepted = 0,
    f_pids = [], kids = [], sigchld = False, in_handler = False\<rparr>"

section \<open>The child\<close>

definition here :: "char list" where "here = ''here'' @ [LF]"

text \<open>
  \<open>serve_client\<close> in the child, on its copies of the descriptors and of the output buffer; whether
  \<open>dup2\<close> and \<open>execlp\<close> succeed is given. The descriptors the train program gets, and the bytes
  written to descriptor 1. A failing \<open>execlp\<close> leaves by \<open>handle_error\<close>, whose \<open>exit\<close> writes out what is
  still in the buffer.
\<close>

definition serve_client :: "fd_table \<Rightarrow> stream \<Rightarrow> int \<Rightarrow> bool \<Rightarrow> bool \<Rightarrow> fd_table \<times> char list" where
  "serve_client fds out connfd dup_ok exec_ok =
    (let fds1 = (if dup_ok then fds(1 := fds connfd) else fds);
         fds2 = fds1(connfd := None);
         (written, out') = put_stdout (fds2 1 = Some Terminal) here out
     in (fds2, if exec_ok then written else written @ pending out'))"

definition new_kid :: "int \<Rightarrow> forker \<Rightarrow> int \<Rightarrow> nat \<Rightarrow> int \<Rightarrow> bool \<Rightarrow> bool \<Rightarrow> kid" where
  "new_kid sockfd s connfd n pid dup_ok exec_ok =
    (let (fds, said) = serve_client ((f_fds s)(sockfd := None)) (f_stdout s) connfd dup_ok exec_ok
     in \<lparr>k_pid = pid, k_state = Running, k_conn = n, k_fds = fds, k_said = said,
          k_dup = dup_ok\<rparr>)"

section \<open>The handler\<close>

definition is_zombie :: "kid \<Rightarrow> bool" where
  "is_zombie k \<longleftrightarrow> k_state k = Zombie"

text \<open>\<open>waitpid (-1, NULL, WNOHANG)\<close>: a child that has exited, 0 when none has, \<open>- 1\<close> without children.\<close>

fun take_zombie :: "kid list \<Rightarrow> (kid \<times> kid list) option" where
  "take_zombie [] = None"
| "take_zombie (k # ks) =
    (if is_zombie k then Some (k, ks) else map_option (\<lambda>(z, r). (z, k # r)) (take_zombie ks))"

definition waitpid :: "kid list \<Rightarrow> int \<times> kid list" where
  "waitpid ks =
    (case take_zombie ks of
       Some (z, r) \<Rightarrow> (k_pid z, r)
     | None \<Rightarrow> (if ks = [] then - 1 else 0, ks))"

lemma take_zombie_Some:
  "take_zombie ks = Some (z, r) \<Longrightarrow> is_zombie z \<and> z \<in> set ks \<and> set r \<subseteq> set ks \<and>
    length ks = Suc (length r) \<and> filter is_zombie ks = z # filter is_zombie r \<and>
    filter (\<lambda>k. \<not> is_zombie k) r = filter (\<lambda>k. \<not> is_zombie k) ks"
  by (induction ks arbitrary: r) (auto split: if_splits)

lemma take_zombie_None: "take_zombie ks = None \<longleftrightarrow> filter is_zombie ks = []"
  by (induction ks) auto

lemma waitpid_shorter: "0 < fst (waitpid ks) \<Longrightarrow> length (snd (waitpid ks)) < length ks"
  by (auto simp: waitpid_def dest!: take_zombie_Some split: option.splits if_splits)

text \<open>The loop of \<open>handler\<close>, from its start to its end.\<close>

function handler :: "kid list \<Rightarrow> kid list" where
  "handler ks = (if 0 < fst (waitpid ks) then handler (snd (waitpid ks)) else snd (waitpid ks))"
  by auto

termination
  by (relation "measure length") (auto intro: waitpid_shorter)

declare handler.simps [simp del]

section \<open>The parent\<close>

definition train_line :: "int \<Rightarrow> char list" where
  "train_line pid = ''Train ID: '' @ show_int pid @ [LF]"

datatype fork_event =
    AcceptOk int | AcceptFails
  | ForkOk int bool bool | ForkFails
  | KidExits int | Deliver | Reap

text \<open>A process that has exited waits for its parent; \<open>SIGCHLD\<close> becomes pending.\<close>

definition exit_kid :: "int \<Rightarrow> kid \<Rightarrow> kid" where
  "exit_kid pid k = (if k_pid k = pid then k\<lparr>k_state := Zombie\<rparr> else k)"

text \<open>After the fork, in the parent: the line on the console, and the connection is closed.\<close>

definition parent_forked :: "forker \<Rightarrow> int \<Rightarrow> int \<Rightarrow> forker" where
  "parent_forked s connfd pid =
    (let (written, out) = put_stdout (f_fds s 1 = Some Terminal) (train_line pid) (f_stdout s)
     in s\<lparr>f_pc := Accepting, f_fds := (f_fds s)(connfd := None), f_stdout := out,
          f_console := f_console s @ written, f_pids := f_pids s @ [pid]\<rparr>)"

text \<open>A failing \<open>fork\<close> ends the server by \<open>handle_error\<close>, which writes out its buffer.\<close>

definition stop_parent :: "forker \<Rightarrow> forker" where
  "stop_parent s = s\<lparr>f_pc := Stopped, f_console := f_console s @ pending (f_stdout s),
    f_stdout := (f_stdout s)\<lparr>pending := []\<rparr>\<rparr>"

text \<open>
  One step. A new descriptor is one that is not open, a new process id one that is positive and not
  in use; while the handler runs, the loop of the parent does not.
\<close>

fun forker_step :: "int \<Rightarrow> forker \<Rightarrow> fork_event \<Rightarrow> forker option" where
  "forker_step sockfd s (AcceptOk connfd) =
    (if f_pc s = Accepting \<and> \<not> in_handler s \<and> 0 \<le> connfd \<and> f_fds s connfd = None
     then Some (s\<lparr>f_pc := Forking connfd, f_fds := (f_fds s)(connfd \<mapsto> Conn (f_accepted s)),
                  f_accepted := f_accepted s + 1\<rparr>)
     else None)"
| "forker_step sockfd s AcceptFails =
    (if f_pc s = Accepting \<and> \<not> in_handler s then Some s else None)"
| "forker_step sockfd s (ForkOk pid dup_ok exec_ok) =
    (case f_pc s of
       Forking connfd \<Rightarrow>
         (if \<not> in_handler s \<and> 0 < pid \<and> pid \<notin> set (map k_pid (kids s))
          then Some ((parent_forked s connfd pid)
            \<lparr>kids := kids s @ [new_kid sockfd s connfd (f_accepted s - 1) pid dup_ok exec_ok]\<rparr>)
          else None)
     | _ \<Rightarrow> None)"
| "forker_step sockfd s ForkFails =
    (case f_pc s of Forking connfd \<Rightarrow> (if in_handler s then None else Some (stop_parent s))
     | _ \<Rightarrow> None)"
| "forker_step sockfd s (KidExits pid) =
    (if \<exists>k \<in> set (kids s). k_pid k = pid \<and> k_state k = Running
     then Some (s\<lparr>kids := map (exit_kid pid) (kids s), sigchld := True\<rparr>) else None)"
| "forker_step sockfd s Deliver =
    (if sigchld s \<and> \<not> in_handler s \<and> f_pc s \<noteq> Stopped
     then Some (s\<lparr>sigchld := False, in_handler := True\<rparr>) else None)"
| "forker_step sockfd s Reap =
    (if in_handler s
     then (let (r, ks) = waitpid (kids s) in Some (s\<lparr>kids := ks, in_handler := 0 < r\<rparr>))
     else None)"

section \<open>Reaping\<close>

definition pids_ok :: "kid list \<Rightarrow> bool" where
  "pids_ok ks \<longleftrightarrow> (\<forall>k \<in> set ks. 0 < k_pid k)"

definition zombies :: "kid list \<Rightarrow> nat" where
  "zombies ks = length (filter is_zombie ks)"

definition living :: "kid list \<Rightarrow> kid list" where
  "living ks = filter (\<lambda>k. \<not> is_zombie k) ks"

lemma waitpid_cases:
  assumes "pids_ok ks"
  obtains (none) "zombies ks = 0" "fst (waitpid ks) \<le> 0" "snd (waitpid ks) = ks"
    | (some) "0 < fst (waitpid ks)" "zombies ks = Suc (zombies (snd (waitpid ks)))"
        "living (snd (waitpid ks)) = living ks" "pids_ok (snd (waitpid ks))"
proof (cases "take_zombie ks")
  case None
  then show thesis
    using take_zombie_None [of ks] by (intro none) (auto simp: zombies_def waitpid_def)
next
  case (Some zr)
  obtain z r where zr: "zr = (z, r)" by fastforce
  note z = take_zombie_Some [OF Some [unfolded zr]]
  show thesis
  proof (rule some)
    show "0 < fst (waitpid ks)" using z assms Some zr by (auto simp: waitpid_def pids_ok_def)
    show "zombies ks = Suc (zombies (snd (waitpid ks)))" "living (snd (waitpid ks)) = living ks"
      using z Some zr by (simp_all add: waitpid_def zombies_def living_def)
    show "pids_ok (snd (waitpid ks))" using z assms Some zr by (auto simp: waitpid_def pids_ok_def)
  qed
qed

lemma handler_living: "pids_ok ks \<Longrightarrow> handler ks = living ks"
proof (induction ks rule: handler.induct)
  case (1 ks)
  from 1(2) show ?case
  proof (cases rule: waitpid_cases)
    case none
    then have "living ks = ks" by (simp add: living_def zombies_def filter_empty_conv)
    with none show ?thesis by (subst handler.simps) simp
  next
    case some
    with 1 show ?thesis by (subst handler.simps) simp
  qed
qed

section \<open>The invariants of the parent\<close>

text \<open>Process ids are positive, and an exited child is never forgotten.\<close>

definition reaping :: "forker \<Rightarrow> bool" where
  "reaping s \<longleftrightarrow> pids_ok (kids s) \<and> (zombies (kids s) \<noteq> 0 \<longrightarrow> sigchld s \<or> in_handler s)"

lemma forked_fields [simp]:
  "sigchld (parent_forked s c pid) = sigchld s" "in_handler (parent_forked s c pid) = in_handler s"
  "f_pc (parent_forked s c pid) = Accepting" "f_accepted (parent_forked s c pid) = f_accepted s"
  "f_fds (parent_forked s c pid) = (f_fds s)(c := None)"
  "f_pids (parent_forked s c pid) = f_pids s @ [pid]"
  by (simp_all add: parent_forked_def split_beta)

lemma stop_parent_fields [simp]:
  "sigchld (stop_parent s) = sigchld s" "in_handler (stop_parent s) = in_handler s"
  "f_pc (stop_parent s) = Stopped" "kids (stop_parent s) = kids s"
  "f_pids (stop_parent s) = f_pids s"
  "f_console (stop_parent s) = f_console s @ pending (f_stdout s)"
  "f_stdout (stop_parent s) = (f_stdout s)\<lparr>pending := []\<rparr>"
  by (simp_all add: stop_parent_def)

lemma new_kid_fields [simp]:
  "k_pid (new_kid sockfd s c n pid d e) = pid" "\<not> is_zombie (new_kid sockfd s c n pid d e)"
  "k_conn (new_kid sockfd s c n pid d e) = n" "k_dup (new_kid sockfd s c n pid d e) = d"
  by (simp_all add: new_kid_def split_beta is_zombie_def)

lemma reaping_step:
  assumes "reaping s" and "forker_step sockfd s e = Some s'"
  shows "reaping s'"
proof (cases e)
  case (ForkOk pid d x)
  then show ?thesis using assms
    by (cases "f_pc s") (auto simp: reaping_def pids_ok_def zombies_def split: if_splits)
next
  case (KidExits pid)
  then show ?thesis using assms
    by (auto simp: reaping_def pids_ok_def exit_kid_def split: if_splits)
next
  case Reap
  have "pids_ok (kids s)" using assms(1) by (simp add: reaping_def)
  then show ?thesis
  proof (cases rule: waitpid_cases)
    case none
    then show ?thesis using assms Reap by (auto simp: reaping_def split_beta split: if_splits)
  next
    case some
    then show ?thesis using assms Reap by (auto simp: reaping_def split_beta split: if_splits)
  qed
qed (use assms in \<open>auto simp: reaping_def split: if_splits fork_pc.splits\<close>)

interpretation lab5_reaping: inductive_invariant "forker_start sockfd out blk" "forker_step sockfd"
  reaping for sockfd out blk
  by unfold_locales
    (simp add: reaping_def forker_start_def pids_ok_def zombies_def, rule reaping_step)

text \<open>The handler, step by step and undisturbed: one \<open>waitpid\<close> per exited child and one more.\<close>

lemma handler_run:
  assumes "pids_ok (kids s)" and "in_handler s"
  shows "run_events (forker_step sockfd) s (replicate (Suc (zombies (kids s))) Reap) =
    Some (s\<lparr>kids := living (kids s), in_handler := False\<rparr>)"
  using assms
proof (induction "zombies (kids s)" arbitrary: s)
  case 0
  from 0(2) show ?case
  proof (cases rule: waitpid_cases)
    case none
    moreover have "living (kids s) = kids s"
      using 0(1) by (simp add: living_def zombies_def filter_empty_conv)
    ultimately show ?thesis using 0 by (simp add: split_beta)
  qed (use 0 in simp)
next
  case (Suc n)
  from Suc(3) show ?case
  proof (cases rule: waitpid_cases)
    case some
    let ?s = "s\<lparr>kids := snd (waitpid (kids s)), in_handler := True\<rparr>"
    have "run_events (forker_step sockfd) ?s (replicate (Suc (zombies (kids ?s))) Reap) =
        Some (?s\<lparr>kids := living (kids ?s), in_handler := False\<rparr>)"
      using some Suc by (intro Suc.hyps(1)) auto
    moreover have "forker_step sockfd s Reap = Some ?s"
      using some(1) Suc.prems(2) by (simp add: split_beta)
    ultimately show ?thesis using some Suc.hyps(2) by simp
  qed (use Suc in simp)
qed

text \<open>
  Descriptors: the parent has none but its own between two connections, and the one connection
  while it forks; a child has 0, 1 and 2, where 1 is its connection unless \<open>dup2\<close> failed.
\<close>

definition kid_fds :: "ofile \<Rightarrow> nat \<Rightarrow> bool \<Rightarrow> fd_table" where
  "kid_fds out n dup_ok = [0 \<mapsto> Terminal, 1 \<mapsto> (if dup_ok then Conn n else out), 2 \<mapsto> Terminal]"

definition descriptors_ok :: "int \<Rightarrow> ofile \<Rightarrow> forker \<Rightarrow> bool" where
  "descriptors_ok sockfd out s \<longleftrightarrow>
    (case f_pc s of
       Accepting \<Rightarrow> f_fds s = start_fds sockfd out
     | Forking c \<Rightarrow> 0 \<le> c \<and> start_fds sockfd out c = None \<and> 0 < f_accepted s \<and>
         f_fds s = (start_fds sockfd out)(c \<mapsto> Conn (f_accepted s - 1))
     | Stopped \<Rightarrow> True) \<and>
    (\<forall>k \<in> set (kids s). k_fds k = kid_fds out (k_conn k) (k_dup k))"

lemma served_fds:
  assumes "2 < sockfd" and "start_fds sockfd out c = None" and "0 \<le> c"
    and "f_fds s = (start_fds sockfd out)(c \<mapsto> Conn n)"
  shows "k_fds (new_kid sockfd s c n pid d e) = kid_fds out n d"
proof -
  have "c \<noteq> 0" "c \<noteq> 1" "c \<noteq> 2" "c \<noteq> sockfd"
    using assms(1,2) by (auto simp: start_fds_def split: if_splits)
  then show ?thesis using assms(1,4)
    by (simp add: new_kid_def serve_client_def start_fds_def kid_fds_def split_beta Let_def fun_eq_iff)
qed

lemma exit_kid_fields [simp]:
  "k_fds (exit_kid pid k) = k_fds k" "k_conn (exit_kid pid k) = k_conn k"
  "k_said (exit_kid pid k) = k_said k" "k_dup (exit_kid pid k) = k_dup k" "k_pid (exit_kid pid k) = k_pid k"
  by (simp_all add: exit_kid_def)

lemma descriptors_step:
  assumes "2 < sockfd" and "descriptors_ok sockfd out s" and "forker_step sockfd s e = Some s'"
  shows "descriptors_ok sockfd out s'"
proof (cases e)
  case (ForkOk pid d x)
  then obtain c where c: "f_pc s = Forking c"
      "s' = (parent_forked s c pid)\<lparr>kids := kids s @ [new_kid sockfd s c (f_accepted s - 1) pid d x]\<rparr>"
    using assms(3) by (auto split: fork_pc.splits if_splits)
  with assms(2) have f: "0 \<le> c" "start_fds sockfd out c = None"
      "f_fds s = (start_fds sockfd out)(c \<mapsto> Conn (f_accepted s - 1))"
    by (simp_all add: descriptors_ok_def)
  then have "(f_fds s)(c := None) = start_fds sockfd out" by (simp add: fun_eq_iff)
  then show ?thesis
    using assms(2) c served_fds [OF assms(1) f(2,1,3)] by (auto simp: descriptors_ok_def)
next
  case (KidExits pid)
  then show ?thesis using assms(2,3)
    by (cases "f_pc s") (auto simp: descriptors_ok_def split: if_splits)
next
  case Reap
  have "set (snd (waitpid (kids s))) \<subseteq> set (kids s)"
    by (auto simp: waitpid_def dest: take_zombie_Some split: option.split)
  then show ?thesis using assms(2,3) Reap
    by (cases "f_pc s") (auto simp: descriptors_ok_def split_beta split: if_splits)
qed (use assms(2,3) in \<open>auto simp: descriptors_ok_def split: if_splits fork_pc.splits\<close>)

text \<open>No two children have the same connection.\<close>

definition conns_ok :: "forker \<Rightarrow> bool" where
  "conns_ok s \<longleftrightarrow> distinct (map k_conn (kids s)) \<and>
    (\<forall>k \<in> set (kids s). k_conn k < (case f_pc s of Forking c \<Rightarrow> f_accepted s - 1 | _ \<Rightarrow> f_accepted s)) \<and>
    (\<forall>c. f_pc s = Forking c \<longrightarrow> 0 < f_accepted s)"

lemma take_zombie_distinct:
  "take_zombie ks = Some (z, r) \<Longrightarrow> distinct (map f ks) \<Longrightarrow> distinct (map f r) \<and> set r \<subseteq> set ks"
proof (induction ks arbitrary: r)
  case (Cons k ks)
  show ?case
  proof (cases "is_zombie k")
    case False
    with Cons.prems(1) obtain q where q: "take_zombie ks = Some (z, q)" "r = k # q" by auto
    with Cons.IH [OF q(1)] Cons.prems(2) have "distinct (map f q)" "set q \<subseteq> set ks" by simp_all
    moreover have "f k \<notin> f ` set q" using Cons.prems(2) \<open>set q \<subseteq> set ks\<close> by auto
    ultimately show ?thesis using q(2) by auto
  qed (use Cons.prems in auto)
qed simp

lemma waitpid_distinct:
  "distinct (map f ks) \<Longrightarrow> distinct (map f (snd (waitpid ks))) \<and> set (snd (waitpid ks)) \<subseteq> set ks"
  by (auto simp: waitpid_def dest: take_zombie_distinct split: option.split)

lemma exit_kid_conns [simp]: "map k_conn (map (exit_kid pid) ks) = map k_conn ks"
  by (induction ks) simp_all

lemma conns_step:
  assumes "conns_ok s" and "forker_step sockfd s e = Some s'"
  shows "conns_ok s'"
proof (cases e)
  case (AcceptOk c)
  then show ?thesis using assms by (auto simp: conns_ok_def split: if_splits)
next
  case (ForkOk pid d x)
  then obtain c where c: "f_pc s = Forking c"
      "s' = (parent_forked s c pid)\<lparr>kids := kids s @ [new_kid sockfd s c (f_accepted s - 1) pid d x]\<rparr>"
    using assms(2) by (auto split: fork_pc.splits if_splits)
  then have less: "k \<in> set (kids s) \<Longrightarrow> k_conn k < f_accepted s - 1" and "0 < f_accepted s" for k
    using assms(1) by (simp_all add: conns_ok_def)
  then have "f_accepted s - 1 \<notin> k_conn ` set (kids s)" by force
  then show ?thesis using assms(1) c \<open>0 < f_accepted s\<close> less_trans [OF less]
    by (simp add: conns_ok_def)
next
  case ForkFails
  then obtain c where c: "f_pc s = Forking c" "s' = stop_parent s"
    using assms(2) by (auto split: fork_pc.splits if_splits)
  then have "k \<in> set (kids s) \<Longrightarrow> k_conn k < f_accepted s - 1" for k
    using assms(1) by (simp add: conns_ok_def)
  then have "k \<in> set (kids s) \<Longrightarrow> k_conn k < f_accepted s" for k by fastforce
  then show ?thesis using assms(1) c by (simp add: conns_ok_def stop_parent_def)
next
  case (KidExits pid)
  then have "s' = s\<lparr>kids := map (exit_kid pid) (kids s), sigchld := True\<rparr>"
    using assms(2) by (simp split: if_splits)
  with assms(1) show ?thesis by (cases "f_pc s") (simp_all add: conns_ok_def del: map_map)
next
  case Reap
  then show ?thesis using assms waitpid_distinct [of k_conn "kids s"]
    by (cases "f_pc s") (auto simp: conns_ok_def split_beta split: if_splits)
next
  case Deliver
  then have "s' = s\<lparr>sigchld := False, in_handler := True\<rparr>" using assms(2) by (simp split: if_splits)
  with assms(1) show ?thesis by (cases "f_pc s") (simp_all add: conns_ok_def)
qed (use assms in \<open>auto simp: conns_ok_def split: if_splits\<close>)

interpretation lab5_conns: inductive_invariant "forker_start sockfd out blk" "forker_step sockfd"
  conns_ok for sockfd out blk
  by unfold_locales (simp add: conns_ok_def forker_start_def, rule conns_step)

text \<open>
  Output: what was printed is on the console or still in the buffer; nothing has been decided
  about the buffering before the first fork has been reported.
\<close>

definition train_lines :: "int list \<Rightarrow> char list" where
  "train_lines pids = concat (map train_line pids)"

definition output_ok :: "ofile \<Rightarrow> nat \<Rightarrow> forker \<Rightarrow> bool" where
  "output_ok out blk s \<longleftrightarrow>
    block (f_stdout s) = blk \<and>
    f_console s @ pending (f_stdout s) = train_lines (f_pids s) \<and>
    line_buffered (f_stdout s) = (if f_pids s = [] then None else Some (out = Terminal)) \<and>
    (out = Terminal \<longrightarrow> pending (f_stdout s) = []) \<and>
    (out \<noteq> Terminal \<longrightarrow> f_pc s \<noteq> Stopped \<longrightarrow> length (train_lines (f_pids s)) < blk \<longrightarrow> f_console s = [])"

lemma put_line:
  assumes "line_buffered st = (if b then None else Some True)" and "pending st = []"
    and "LF \<notin> set txt"
  shows "put_stdout True (txt @ [LF]) st = (txt @ [LF], st\<lparr>line_buffered := Some True, pending := []\<rparr>)"
  using assms by (simp add: put_stdout_def)

lemma put_block:
  assumes "line_buffered st = (if b then None else Some False)"
    and "length (pending st @ txt) < block st"
  shows "put_stdout False txt st =
    ([], st\<lparr>line_buffered := Some False, pending := pending st @ txt\<rparr>)"
  using assms by (simp add: put_stdout_def)

lemma put_conserves:
  "fst (put_stdout t txt st) @ pending (snd (put_stdout t txt st)) = pending st @ txt"
  "block (snd (put_stdout t txt st)) = block st"
  by (simp_all add: put_stdout_def Let_def del: take_append drop_append)

lemma train_line_text: "train_line pid = (''Train ID: '' @ show_int pid) @ [LF]"
  "LF \<notin> set (''Train ID: '' @ show_int pid)"
proof -
  have "LF \<notin> set (show_nat n)" for n
    using show_nat_digits [of LF n] by (auto simp: is_digit_def LF_def)
  then show "LF \<notin> set (''Train ID: '' @ show_int pid)"
    by (auto simp: show_int_def LF_def split: if_splits)
qed (simp add: train_line_def)

lemma terminal_fds:
  assumes "2 < sockfd" and "descriptors_ok sockfd out s" and "f_pc s = Forking c"
  shows "f_fds s 1 = Some Terminal \<longleftrightarrow> out = Terminal"
  using assms by (auto simp: descriptors_ok_def start_fds_def split: if_splits)

lemma output_forked:
  assumes "2 < sockfd" and "descriptors_ok sockfd out s" and "output_ok out blk s"
    and "f_pc s = Forking c"
  shows "output_ok out blk (parent_forked s c pid)"
proof -
  let ?st = "f_stdout s" and ?t = "train_line pid"
  have lb: "line_buffered ?st = (if f_pids s = [] then None else Some (out = Terminal))"
    and pend: "f_console s @ pending ?st = train_lines (f_pids s)" and blk: "block ?st = blk"
    using assms(3) by (simp_all add: output_ok_def)
  have lines: "train_lines (f_pids s @ [pid]) = train_lines (f_pids s) @ ?t"
    by (simp add: train_lines_def)
  note tty = terminal_fds [OF assms(1,2,4)]
  show ?thesis
  proof (cases "out = Terminal")
    case True
    then have "put_stdout True ?t ?st = (?t, ?st\<lparr>line_buffered := Some True, pending := []\<rparr>)"
      using put_line [of ?st "f_pids s = []" "''Train ID: '' @ show_int pid"] lb assms(3)
        train_line_text by (simp add: output_ok_def)
    then show ?thesis using True tty pend blk assms(3) lines
      by (simp add: output_ok_def parent_forked_def)
  next
    case False
    let ?r = "put_stdout False ?t ?st"
    have "f_console s @ fst ?r @ pending (snd ?r) = train_lines (f_pids s) @ ?t"
      using put_conserves(1) [of False ?t ?st] pend by (metis append.assoc)
    moreover have "line_buffered (snd ?r) = Some False"
      using lb False by (simp add: put_stdout_def Let_def)
    moreover have "f_console s = [] \<and> fst ?r = []" if "length (train_lines (f_pids s @ [pid])) < blk"
    proof -
      have "f_console s = []" using that assms(3,4) False lines by (simp add: output_ok_def)
      moreover from this have "pending ?st = train_lines (f_pids s)" using pend by simp
      ultimately show ?thesis using put_block [of ?st "f_pids s = []" ?t] lb False that blk lines
        by simp
    qed
    ultimately show ?thesis using False tty blk lines put_conserves(2) [of False ?t ?st]
      by (simp add: output_ok_def parent_forked_def split_beta)
  qed
qed

lemma output_step:
  assumes "2 < sockfd" and "descriptors_ok sockfd out s" and "output_ok out blk s"
    and "forker_step sockfd s e = Some s'"
  shows "output_ok out blk s'"
proof (cases e)
  case (ForkOk pid d x)
  then obtain c where c: "f_pc s = Forking c"
      "s' = (parent_forked s c pid)\<lparr>kids := kids s @ [new_kid sockfd s c (f_accepted s - 1) pid d x]\<rparr>"
    using assms(4) by (auto split: fork_pc.splits if_splits)
  then show ?thesis using output_forked [OF assms(1-3) c(1)] by (simp add: output_ok_def)
qed (use assms(3,4) in \<open>auto simp: output_ok_def split_beta split: if_splits fork_pc.splits\<close>)

definition fork_inv :: "int \<Rightarrow> ofile \<Rightarrow> nat \<Rightarrow> forker \<Rightarrow> bool" where
  "fork_inv sockfd out blk s \<longleftrightarrow>
    (2 < sockfd \<longrightarrow> descriptors_ok sockfd out s \<and> output_ok out blk s)"

lemma fork_inv_start: "fork_inv sockfd out blk (forker_start sockfd out blk)"
  by (simp add: fork_inv_def descriptors_ok_def output_ok_def forker_start_def train_lines_def)

lemma fork_inv_step:
  "fork_inv sockfd out blk s \<Longrightarrow> forker_step sockfd s e = Some s' \<Longrightarrow> fork_inv sockfd out blk s'"
  unfolding fork_inv_def by (blast intro: descriptors_step output_step)

interpretation lab5_parent: inductive_invariant "forker_start sockfd out blk" "forker_step sockfd"
  "fork_inv sockfd out blk" for sockfd out blk
  by unfold_locales (rule fork_inv_start, rule fork_inv_step)

section \<open>Properties\<close>

lemma forked_kid:
  assumes "reachable (forker_start sockfd out blk) (forker_step sockfd) s" and "2 < sockfd"
    and "forker_step sockfd s (ForkOk pid True exec_ok) = Some s'"
  shows "output_ok out blk s"
    and "k_said (last (kids s')) = (if exec_ok then fst (put_stdout False here (f_stdout s))
      else fst (put_stdout False here (f_stdout s)) @ pending (snd (put_stdout False here (f_stdout s))))"
proof -
  from assms(3) obtain c where c: "f_pc s = Forking c"
      "kids s' = kids s @ [new_kid sockfd s c (f_accepted s - 1) pid True exec_ok]"
    by (auto split: fork_pc.splits if_splits)
  have inv: "descriptors_ok sockfd out s"
    using lab5_parent.inv_reachable [OF assms(1)] assms(2) by (simp add: fork_inv_def)
  show "output_ok out blk s"
    using lab5_parent.inv_reachable [OF assms(1)] assms(2) by (simp add: fork_inv_def)
  from inv have d: "0 \<le> c" "start_fds sockfd out c = None"
      "f_fds s = (start_fds sockfd out)(c \<mapsto> Conn (f_accepted s - 1))"
    using c(1) by (simp_all add: descriptors_ok_def)
  then have n: "c \<noteq> 1" "c \<noteq> sockfd" "sockfd \<noteq> 1"
    using assms(2) by (auto simp: start_fds_def split: if_splits)
  then show "k_said (last (kids s')) = (if exec_ok then fst (put_stdout False here (f_stdout s))
      else fst (put_stdout False here (f_stdout s)) @ pending (snd (put_stdout False here (f_stdout s))))"
    using c(2) d(3) by (simp add: new_kid_def serve_client_def split_beta Let_def)
qed

text \<open>
  C15. No exited child is forgotten although signals are not counted: whenever there is one, a
  SIGCHLD is pending or the handler is running. The handler terminates: after one \<open>waitpid\<close> per
  exited child and one more it has removed exactly the exited children, whatever their number.
\<close>

theorem every_child_reaped:
  assumes "reachable (forker_start sockfd out blk) (forker_step sockfd) s"
  shows "((\<exists>k \<in> set (kids s). is_zombie k) \<longrightarrow> sigchld s \<or> in_handler s) \<and>
    handler (kids s) = filter (\<lambda>k. \<not> is_zombie k) (kids s) \<and>
    (in_handler s \<longrightarrow> run_events (forker_step sockfd) s (replicate (Suc (zombies (kids s))) Reap) =
      Some (s\<lparr>kids := handler (kids s), in_handler := False\<rparr>))"
proof -
  have r: "pids_ok (kids s)" "zombies (kids s) \<noteq> 0 \<longrightarrow> sigchld s \<or> in_handler s"
    using lab5_reaping.inv_reachable [OF assms] by (simp_all add: reaping_def)
  then have "(\<exists>k \<in> set (kids s). is_zombie k) \<longrightarrow> sigchld s \<or> in_handler s"
    by (auto simp: zombies_def filter_empty_conv)
  then show ?thesis
    using handler_living [OF r(1)] handler_run [OF r(1)] by (simp add: living_def)
qed

text \<open>Two children that exit before the handler runs: one signal, both reaped.\<close>

definition two_exits :: "fork_event list" where
  "two_exits = [AcceptOk 4, ForkOk 7 True True, AcceptOk 4, ForkOk 8 True True,
    KidExits 7, KidExits 8, Deliver]"

lemma two_exits_run:
  "\<exists>s. reachable (forker_start 3 Terminal 1024) (forker_step 3) s \<and>
    in_handler s \<and> \<not> sigchld s \<and> zombies (kids s) = 2 \<and> length (kids s) = 2 \<and>
    filter (\<lambda>k. \<not> is_zombie k) (kids s) = [] \<and> (\<forall>k \<in> set (kids s). k_dup k)"
  by (rule evaluated_run [where es = two_exits]) code_simp

theorem every_child_reaped_witness:
  "\<exists>s s'. reachable (forker_start 3 Terminal 1024) (forker_step 3) s \<and> length (kids s) = 2 \<and>
    run_events (forker_step 3) s [Reap, Reap, Reap] = Some s' \<and> kids s' = [] \<and> \<not> in_handler s'"
proof -
  obtain s where s: "reachable (forker_start 3 Terminal 1024) (forker_step 3) s"
      "in_handler s" "zombies (kids s) = 2" "length (kids s) = 2"
      "filter (\<lambda>k. \<not> is_zombie k) (kids s) = []"
    using two_exits_run by blast
  then have "run_events (forker_step 3) s (replicate (Suc (zombies (kids s))) Reap) =
      Some (s\<lparr>kids := [], in_handler := False\<rparr>)"
    using every_child_reaped [OF s(1)] by simp
  moreover have "replicate (Suc (zombies (kids s))) Reap = [Reap, Reap, Reap]"
    by (simp add: s(3) numeral_2_eq_2)
  ultimately have "run_events (forker_step 3) s [Reap, Reap, Reap] =
      Some (s\<lparr>kids := [], in_handler := False\<rparr>)" by (simp only:)
  then show ?thesis
    using s(1,4) by (intro exI [of _ s] exI [of _ "s\<lparr>kids := [], in_handler := False\<rparr>"] conjI)
      (simp_all del: run_events.simps)
qed

text \<open>
  C16. No descriptor leaks. Whenever the parent waits for a connection it has exactly the
  descriptors it started with, however many clients it has served, and each train program has
  exactly 0, 1 and 2 open: neither the listening socket nor the connection of another client. Its
  standard output is the connection it was forked for if its \<open>dup2\<close> succeeded, and the output of
  the server if not; each of the children was forked for a connection of its own.
\<close>

theorem no_descriptor_leak:
  assumes "reachable (forker_start sockfd out blk) (forker_step sockfd) s" and "2 < sockfd"
  shows "(f_pc s = Accepting \<longrightarrow> f_fds s = start_fds sockfd out) \<and>
    (\<forall>k \<in> set (kids s). k_fds k =
      [0 \<mapsto> Terminal, 1 \<mapsto> (if k_dup k then Conn (k_conn k) else out), 2 \<mapsto> Terminal]) \<and>
    distinct (map k_conn (kids s))"
proof -
  have d: "descriptors_ok sockfd out s"
    using lab5_parent.inv_reachable [OF assms(1)] assms(2) by (simp add: fork_inv_def)
  moreover have "conns_ok s" using lab5_conns.inv_reachable [OF assms(1)] .
  ultimately show ?thesis
    by (cases "f_pc s") (simp_all add: descriptors_ok_def kid_fds_def conns_ok_def)
qed

theorem no_descriptor_leak_witness:
  "\<exists>s. reachable (forker_start 3 Terminal 1024) (forker_step 3) s \<and> length (kids s) = 2 \<and>
    (\<forall>k \<in> set (kids s). k_dup k \<and> k_fds k 1 = Some (Conn (k_conn k))) \<and> distinct (map k_conn (kids s))"
proof -
  obtain s where s: "reachable (forker_start 3 Terminal 1024) (forker_step 3) s" "length (kids s) = 2"
    "\<forall>k \<in> set (kids s). k_dup k" using two_exits_run by blast
  have "(2 :: int) < 3" by simp
  note leak = no_descriptor_leak [OF s(1) this]
  have "k_fds k 1 = Some (Conn (k_conn k))" if k: "k \<in> set (kids s)" for k
  proof -
    have "k_fds k = [0 \<mapsto> Terminal, 1 \<mapsto> (if k_dup k then Conn (k_conn k) else Terminal), 2 \<mapsto> Terminal]"
      using leak k by blast
    with s(3) k show ?thesis by simp
  qed
  with leak s show ?thesis by blast
qed

text \<open>
  C24. The greeting of the first client is lost. On a terminal the parent becomes line buffered
  with its first \<open>Train ID\<close>, and children forked after that inherit it; the first child is forked
  before, finds its output to be a socket, buffers the line \<open>here\<close> and loses it to \<open>execlp\<close>. Every
  later client is sent the line.
\<close>

theorem first_greeting_lost:
  assumes "reachable (forker_start sockfd Terminal blk) (forker_step sockfd) s" and "2 < sockfd"
    and "forker_step sockfd s (ForkOk pid True True) = Some s'" and "5 < blk"
  shows "k_said (last (kids s')) = (if f_pids s = [] then [] else here)"
proof -
  note out = forked_kid(1) [OF assms(1-3)]
  have said: "k_said (last (kids s')) = fst (put_stdout False here (f_stdout s))"
    using forked_kid(2) [OF assms(1-3)] by simp
  show ?thesis
  proof (cases "f_pids s = []")
    case True
    then have "put_stdout False here (f_stdout s) =
        ([], (f_stdout s)\<lparr>line_buffered := Some False, pending := here\<rparr>)"
      using out assms(4) put_block [of "f_stdout s" True here]
      by (simp add: output_ok_def train_lines_def here_def)
    then show ?thesis using True said by simp
  next
    case False
    then have "put_stdout False here (f_stdout s) = (here, f_stdout s)"
      using out by (simp add: output_ok_def put_stdout_def here_def LF_def)
    then show ?thesis using False said by simp
  qed
qed

lemma later_fork_run:
  "\<exists>s. reachable (forker_start 3 Terminal 1024) (forker_step 3) s \<and>
    f_pids s = [7] \<and> forker_step 3 s (ForkOk 8 True True) \<noteq> None"
proof -
  have "\<exists>s. reachable (forker_start 3 Terminal 1024) (forker_step 3) s \<and> f_pids s = [7] \<and>
      f_pc s = Forking 4 \<and> \<not> in_handler s \<and> map k_pid (kids s) = [7]"
    by (rule evaluated_run [where es = "[AcceptOk 4, ForkOk 7 True True, AcceptOk 4]"]) code_simp
  then show ?thesis by auto
qed

theorem first_greeting_lost_witness:
  "\<exists>s s'. reachable (forker_start 3 Terminal 1024) (forker_step 3) s \<and> f_pids s = [7] \<and>
    forker_step 3 s (ForkOk 8 True True) = Some s' \<and> k_said (last (kids s')) = here"
proof -
  obtain s s' where s: "reachable (forker_start 3 Terminal 1024) (forker_step 3) s" "f_pids s = [7]"
      "forker_step 3 s (ForkOk 8 True True) = Some s'" using later_fork_run by blast
  then show ?thesis using first_greeting_lost [OF s(1) _ s(3)] by auto
qed

text \<open>
  C25. Output meant for the console goes to a client. When the standard output of the server is not
  a terminal, the \<open>Train ID\<close> lines stay in its buffer; every child inherits them, and one whose
  \<open>execlp\<close> fails writes them, on leaving, to its client: the process ids of all the earlier
  clients, before its own greeting.
\<close>

theorem train_ids_sent_to_client:
  assumes "reachable (forker_start sockfd Disk blk) (forker_step sockfd) s" and "2 < sockfd"
    and "forker_step sockfd s (ForkOk pid True False) = Some s'"
    and "length (train_lines (f_pids s)) + 5 < blk"
  shows "k_said (last (kids s')) = train_lines (f_pids s) @ here \<and> f_console s = []"
proof -
  note out = forked_kid(1) [OF assms(1-3)]
  have "f_pc s \<noteq> Stopped" using assms(3) by auto
  then have "f_console s = []" using out assms(4) by (simp add: output_ok_def)
  moreover have "k_said (last (kids s')) = pending (f_stdout s) @ here"
    using forked_kid(2) [OF assms(1-3)] put_conserves(1) [of False here "f_stdout s"] by simp
  ultimately show ?thesis using out by (simp add: output_ok_def)
qed

theorem train_ids_sent_to_client_witness:
  "\<exists>s s'. reachable (forker_start 3 Disk 4096) (forker_step 3) s \<and>
    forker_step 3 s (ForkOk 8 True False) = Some s' \<and>
    k_said (last (kids s')) = train_line 7 @ here"
proof -
  have "\<exists>s. reachable (forker_start 3 Disk 4096) (forker_step 3) s \<and> f_pids s = [7] \<and>
      f_pc s = Forking 4 \<and> \<not> in_handler s \<and> map k_pid (kids s) = [7]"
    by (rule evaluated_run [where es = "[AcceptOk 4, ForkOk 7 True True, AcceptOk 4]"]) code_simp
  then obtain s s' where s: "reachable (forker_start 3 Disk 4096) (forker_step 3) s" "f_pids s = [7]"
      "forker_step 3 s (ForkOk 8 True False) = Some s'" by auto
  have "train_line 7 = ''Train ID: 7'' @ [LF]"
    by (simp add: train_line_def number_eval) code_simp
  then have "length (train_lines (f_pids s)) + 5 < 4096" by (simp add: s(2) train_lines_def)
  with train_ids_sent_to_client [OF s(1) _ s(3)] s show ?thesis by (auto simp: train_lines_def)
qed

end
