(* ===== verification/Spec2Isabelle.thy ===== *)
theory Spec2Isabelle
  imports Hw3_Theorems Lab6_Theorems Lab7_Theorems Lab7_Setup Hw1_Theorems Lab4_Display
    Sockets Hw2_Hw3 Lab5_Fork
begin

text \<open>
  A verification library for a collection of small embedded and networked C programs: a delivery
  system in three stages (hw1: menu program and two device drivers; hw2: line client and server;
  hw3: threaded server), an account server with its client (lab6), a fork server (lab5), a guessing
  game of two processes (lab7) and a display driver with its programs (lab4). The programs share no
  code, but they share their substance: C strings in fixed arrays, \<open>printf\<close> and \<open>scanf\<close> text, 32-bit
  integers, mutexes, interleaved threads and processes, descriptors, bills.

  \<^bold>\<open>Foundations\<close>
  \<^item> \<open>Prelude\<close>: the type \<open>c_int\<close> (32-bit words read with \<open>sint\<close>), transition systems as a step
    function \<open>state \<Rightarrow> event \<Rightarrow> state option\<close>, runs, reachable states, and the interfaces through
    which the components are proved: \<open>inductive_invariant\<close>, \<open>lock_discipline\<close>, \<open>refinement\<close>.
  \<^item> \<open>CLib\<close>: character arrays, \<open>strcmp\<close>, \<open>strncmp\<close>, \<open>strcpy\<close>, \<open>strcat\<close>, \<open>snprintf\<close>, \<open>%d\<close>, \<open>atoi\<close> and
    \<open>sscanf\<close> as a list of directives, with the round trips between printing and reading.
  \<^item> \<open>Pthread\<close>: mutexes of the default kind. \<open>Billing\<close>: the interface \<open>billing\<close> (items are added, the
    bill is the sum of price times quantity), interpreted for hw3 (\<open>hw3_bill\<close>) and hw1 (\<open>hw1_bill\<close>).
  \<^item> \<open>Syscalls\<close>: programs as functions of the answers of the operating system (a parameter), with
    the list of calls they make; the state of every descriptor (\<open>use_call\<close>) and \<open>in_order\<close>: no call
    on a descriptor that is closed or in the wrong state.

  \<^bold>\<open>Sockets and connections\<close>
  \<^item> \<open>Sockets\<close>: \<open>main\<close> of \<open>hw3/hw3.c\<close>, \<open>hw2/server.c\<close>, \<open>lab5/lab5.c\<close> and \<open>lab6/server.c\<close> up to the accept
    loop, of \<open>hw2/client.c\<close> and \<open>lab4/reader.c\<close> up to the main loop, and all of \<open>lab6/client.c\<close>; every
    exit is a result. They use their sockets in order and stop at the first call that fails, except
    lab6, whose test of \<open>socket\<close> misses the failure; both properties say what happens then.
  \<^item> \<open>Hw2_Line\<close>: the loop of \<open>hw2/client.c\<close> as a state machine over its 1024-byte buffer, the loop of
    \<open>hw2/server.c\<close>, and the two joined by byte streams: a dialogue with a server that speaks first
    works, but this pair deadlocks. \<open>Hw2_Hw3\<close>: the client with a thread of the hw3 server among
    any other clients; it waits for ever.
  \<^item> \<open>Lab5_Fork\<close>: the accept loop, the children and the \<open>SIGCHLD\<close> handler of \<open>lab5/lab5.c\<close>, with the
    descriptor table and the output buffer that \<open>fork\<close> copies. Whether \<open>dup2\<close> and \<open>execlp\<close> succeed is
    part of the event; the block size of a buffer is a parameter. History of a child: the
    connection it was forked for and whether its \<open>dup2\<close> succeeded.

  \<^bold>\<open>The delivery server, hw3/hw3.c\<close>
  \<^item> \<open>Hw3_Order\<close>: \<open>Order\<close>, \<open>update_item_count\<close>, \<open>determine_restaurant\<close>, \<open>compute_price\<close>,
    \<open>sendtoclient\<close>, \<open>handle_shop_list\<close>, against a catalogue of items, shops, prices and distances.
  \<^item> \<open>Hw3_Server\<close>: \<open>handleclient\<close> and the accept loop of \<open>main\<close>. Each client thread has a program
    point \<open>pc\<close>; a step touches shared memory at most once, so a load and the store after it can be
    separated by other threads; the copy of the static buffer by \<open>strcpy\<close> is one such step, and so is
    its filling by \<open>determine_restaurant\<close>. \<open>Recv\<close> events carry the bytes of a \<open>read\<close>. History variables:
    \<open>misuse\<close> (a mutex was unlocked by a thread that did not hold it), \<open>booked\<close>, \<open>requests\<close>.
  \<^item> \<open>Hw3_Invariants\<close>, \<open>Hw3_Accounting\<close>: who holds which mutex, well-formed clients, and the time of
    a person as the sum of the clients' contributions. \<open>Hw3_Session\<close>: whole undisturbed sessions.
    \<open>Hw3_Defects\<close>: the runs that lose a lock, release a foreign one, or mix up two restaurants.
    \<open>Hw3_Properties\<close>, \<open>Hw3_Theorems\<close>: the remaining invariants and the properties.

  \<^bold>\<open>The account server, lab6/server.c and lab6/client.c\<close>
  \<^item> \<open>Lab6_Bank\<close>: \<open>handle_client\<close>, the registration in \<open>main\<close>, \<open>handle_sigint\<close> (its line, then one
    \<open>close\<close> at a time, while the other threads go on), the client's request, and the abstract account
    with atomic operations. \<open>console\<close> is everything the server prints to its standard output. The
    history variable \<open>ledger\<close> lists the operations in the order in which they took effect.
  \<^item> \<open>Lab6_Invariants\<close>: the mutex, the balance as the replay of the ledger, the account lines of the
    console as its statement and the other lines of the console, and the refinement
    (interpretation \<open>lab6_account\<close>). \<open>Lab6_Counts\<close>: one ledger entry
    per finished iteration. \<open>Lab6_Theorems\<close>: the table of slots, undisturbed clients, properties.

  \<^bold>\<open>The guessing game, lab7/game.c and lab7/guess.c\<close>
  \<^item> \<open>Lab7_Guess\<close>: the shared segment, the two signal handlers and the timer as one transition system
    with pending signals. \<open>Lab7_Theorems\<close>: the bisection terminates (2^k numbers need at most k + 1
    rounds), never finds its upper bound, and has two races. \<open>Lab7_Setup\<close>: the arguments of both
    programs and the System V segment they share, or not.

  \<^bold>\<open>The shop of hw1 and the display of lab4\<close>
  \<^item> \<open>Hw1_Chrdev\<close>: loading and unloading of \<open>hw1/led_driver.c\<close> and \<open>hw1/seg_driver.c\<close> as the calls
    they make into the kernel, for every combination of answers of the kernel (\<open>ans\<close>, a parameter;
    an error pointer passes the drivers' test for \<open>NULL\<close>). \<open>Hw1_Devices\<close>: their write handlers, what
    the pins show, read through the usual shapes of seven-segment digits, and the interface \<open>int_device\<close>. \<open>Hw1_App\<close>: the menu program \<open>hw1/hw1.c\<close> on a typed input.
    \<open>Hw1_Theorems\<close>: the properties, from a typed order to what the display shows.
  \<^item> \<open>Lab4_Seg\<close>: the display, its write and read handlers in \<open>lab4/mydev.c\<close> and the loops of
    \<open>lab4/writer.c\<close> and \<open>lab4/reader.c\<close>. \<open>Char_Devices\<close>: registration, open and read handlers of the
    drivers, and the programs \<open>lab4/writer.c\<close>, \<open>lab4/reader.c\<close> and \<open>lab3/lab3-1_writer.c\<close> as a whole.
    \<open>Lab4_Display\<close>: writer and reader in any interleaving, and what the lines of \<open>lab4/seg.py\<close> show,
    against the letters given by their strokes.

  \<^bold>\<open>Conventions and bounds\<close>
  \<^item> Undefined behaviour is a value (\<open>Undefined\<close>, \<open>WUndefined\<close>, \<open>AUndefined\<close>, \<open>GUndefined\<close>, \<open>CUndefined\<close>, or \<open>None\<close> of
    a handler): a string without its NUL, a write past an array, a variable that was never set.
    Two things that C or POSIX leave undefined have a result here instead: signed overflow wraps, so
    every property that speaks of integers states the range it needs, and the unlock of a mutex that
    the thread does not hold releases it, as the GNU library does, and sets \<open>misuse\<close>.
  \<^item> A blocked step is \<open>None\<close> of the step function. There is no fuel: loops of the servers are steps of
    a transition system, and the claims that something is finished give the number of steps (7 per
    repetition of an account client, 8 per round of the game, one per turn of the shop menu).
  \<^item> The signal handlers of the guesser are one step each; the handler of the game, which another
    process can overtake, is split at every access to the shared segment.

  \<^item> The operating system is a parameter where the programs only look at its answers, and a small
    state (descriptors, child processes, segments, byte streams) where what it keeps matters; that
    state follows the documented interface.

  \<^bold>\<open>Not modelled\<close>: terminal output that no property needs (\<open>pr_info\<close>, logging \<open>printf\<close>), \<open>SIGPIPE\<close>,
  a second interrupt during \<open>handle_sigint\<close>,
  the timer handler of hw3 that is never installed, the Tk window of lab4 and the programs of which
  only binaries are present (the driver of lab3, the train of lab5).
\<close>

end
